theory Spec2Isabelle
  imports Complex_Main
begin

section \<open>Values, exceptions and the interpreter's environment\<close>

text \<open>
  The module \<^verbatim>\<open>rasa/utils/io.py\<close> is glue around the Python standard library and
  \<^verbatim>\<open>ruamel.yaml\<close>. Python text and byte strings are both modelled as \<open>string\<close>; the
  values a safe YAML load can produce are the datatype \<open>pyval\<close>, with a mapping kept as
  the list of its items in document order.
\<close>

datatype pyfloat = Finite rat | Infinite bool | NaN

datatype pyval =
    PNone
  | PBool bool
  | PInt int
  | PFloat pyfloat
  | PStr string
  | PList "pyval list"
  | PDict "(pyval \<times> pyval) list"

text \<open>Python's truth value of an object, as the \<^verbatim>\<open>or\<close> of \<^verbatim>\<open>read_yaml\<close> tests it.\<close>

fun truthy :: "pyval \<Rightarrow> bool" where
  "truthy PNone = False"
| "truthy (PBool b) = b"
| "truthy (PInt i) = (i \<noteq> 0)"
| "truthy (PFloat f) = (f \<noteq> Finite 0)"
| "truthy (PStr s) = (s \<noteq> [])"
| "truthy (PList xs) = (xs \<noteq> [])"
| "truthy (PDict kvs) = (kvs \<noteq> [])"

text \<open>\<^verbatim>\<open>a or b\<close>: the first operand when it is true, the second otherwise.\<close>

definition py_or :: "pyval \<Rightarrow> pyval \<Rightarrow> pyval" where
  "py_or a b = (if truthy a then a else b)"

text \<open>What \<^verbatim>\<open>"{}".format(type(v))\<close> prints.\<close>

fun type_str :: "pyval \<Rightarrow> string" where
  "type_str PNone = ''<class 'NoneType'>''"
| "type_str (PBool _) = ''<class 'bool'>''"
| "type_str (PInt _) = ''<class 'int'>''"
| "type_str (PFloat _) = ''<class 'float'>''"
| "type_str (PStr _) = ''<class 'str'>''"
| "type_str (PList _) = ''<class 'list'>''"
| "type_str (PDict _) = ''<class 'dict'>''"

datatype errno = ENOENT | EEXIST | ENOTDIR | EISDIR | EACCES

text \<open>
  The exceptions that reach a caller of the module. \<open>ExpandError value not_expanded\<close> is
  the \<^verbatim>\<open>ValueError\<close> of \<^verbatim>\<open>env_var_constructor\<close>: its message is the template of the
  source filled with the scalar and with the list of unexpanded words. \<open>OSError ENOENT\<close>
  is Python's \<^verbatim>\<open>FileNotFoundError\<close>, \<open>OSError EEXIST\<close> its \<^verbatim>\<open>FileExistsError\<close>.
\<close>

datatype exn =
    ValueError string
  | ExpandError string "string list"
  | ScannerError string
  | YAMLError string
  | UnicodeError string
  | OSError errno
  | TarError string
  | BadZipFile string

section \<open>Standard-library string functions\<close>

definition is_word :: "char \<Rightarrow> bool" where
  "is_word c = (let n = (of_char c :: nat) in
     (48 \<le> n \<and> n \<le> 57) \<or> (65 \<le> n \<and> n \<le> 90) \<or> n = 95 \<or> (97 \<le> n \<and> n \<le> 122))"

definition is_space :: "char \<Rightarrow> bool" where
  "is_space c = ((of_char c :: nat) \<in> {9, 10, 11, 12, 13, 28, 29, 30, 31, 32, 133, 160})"

text \<open>\<^verbatim>\<open>str.split()\<close> without arguments: the maximal runs of non-whitespace characters.\<close>

fun split_ws :: "string \<Rightarrow> string \<Rightarrow> string list" where
  "split_ws cur [] = (if cur = [] then [] else [cur])"
| "split_ws cur (c # cs) =
     (if is_space c then (if cur = [] then split_ws [] cs else cur # split_ws [] cs)
      else split_ws (cur @ [c]) cs)"

definition py_split :: "string \<Rightarrow> string list" where
  "py_split s = split_ws [] s"

text \<open>\<^verbatim>\<open>sub in s\<close> on strings: \<open>sub\<close> occurs in \<open>s\<close> as a contiguous substring.\<close>

fun contains :: "string \<Rightarrow> string \<Rightarrow> bool" where
  "contains [] sub = (sub = [])"
| "contains (c # cs) sub = (take (length sub) (c # cs) = sub \<or> contains cs sub)"

text \<open>
  \<^verbatim>\<open>os.path.expandvars\<close> of \<^verbatim>\<open>posixpath\<close>: every leftmost match of
  \<^verbatim>\<open>\$(\w+|\{[^}]*\})\<close> is replaced by the value of the variable it names when the
  environment has one, and left as it is otherwise; a substituted value is not scanned
  again.
\<close>

function expandvars :: "(string \<rightharpoonup> string) \<Rightarrow> string \<Rightarrow> string" where
  "expandvars env [] = []"
| "expandvars env (c # rest) =
     (if c \<noteq> CHR ''$'' then c # expandvars env rest
      else if takeWhile is_word rest \<noteq> [] then
        (case env (takeWhile is_word rest) of
           Some v \<Rightarrow> v @ expandvars env (dropWhile is_word rest)
         | None \<Rightarrow> c # takeWhile is_word rest @ expandvars env (dropWhile is_word rest))
      else if rest \<noteq> [] \<and> hd rest = CHR ''{'' \<and> CHR ''}'' \<in> set (tl rest) then
        (case env (takeWhile (\<lambda>x. x \<noteq> CHR ''}'') (tl rest)) of
           Some v \<Rightarrow> v @ expandvars env (tl (dropWhile (\<lambda>x. x \<noteq> CHR ''}'') (tl rest)))
         | None \<Rightarrow>
             c # CHR ''{'' # takeWhile (\<lambda>x. x \<noteq> CHR ''}'') (tl rest) @ CHR ''}''
               # expandvars env (tl (dropWhile (\<lambda>x. x \<noteq> CHR ''}'') (tl rest))))
      else c # expandvars env rest)"
  by pat_completeness auto
termination
proof (relation "measure (\<lambda>(env, s). length s)")
  show "wf (measure (\<lambda>(env, s). length s))" by simp
next
  fix env :: "string \<rightharpoonup> string" and c :: char and rest :: string
  show "((env, rest), env, c # rest) \<in> measure (\<lambda>(env, s). length s)" by simp
  show "((env, dropWhile is_word rest), env, c # rest) \<in> measure (\<lambda>(env, s). length s)"
    by (simp add: length_dropWhile_le less_Suc_eq_le)
  show "((env, dropWhile is_word rest), env, c # rest) \<in> measure (\<lambda>(env, s). length s)"
    by (simp add: length_dropWhile_le less_Suc_eq_le)
  have "length (tl (dropWhile (\<lambda>x. x \<noteq> CHR ''}'') (tl rest))) \<le> length rest"
    by (metis diff_le_self length_dropWhile_le length_tl order_trans)
  then show "((env, tl (dropWhile (\<lambda>x. x \<noteq> CHR ''}'') (tl rest))), env, c # rest)
      \<in> measure (\<lambda>(env, s). length s)"
    by simp
  then show "((env, tl (dropWhile (\<lambda>x. x \<noteq> CHR ''}'') (tl rest))), env, c # rest)
      \<in> measure (\<lambda>(env, s). length s)" .
  show "((env, rest), env, c # rest) \<in> measure (\<lambda>(env, s). length s)" by simp
qed

section \<open>Environment variables in YAML scalars\<close>

text \<open>
  \<^verbatim>\<open>replace_environment_variables\<close> registers the pattern
  \<^verbatim>\<open>^(.*)\$\{(.*)\}(.*)$\<close> as an implicit resolver for the tag \<^verbatim>\<open>!env_var\<close>, and
  \<^verbatim>\<open>env_var_constructor\<close> as the constructor of that tag. The resolver applies the
  pattern with \<^verbatim>\<open>re.match\<close>: a dot does not match a line feed, and the final \<^verbatim>\<open>$\<close>
  matches at the end of the scalar or before a line feed that ends it.
\<close>

fun has_placeholder :: "string \<Rightarrow> bool" where
  "has_placeholder [] = False"
| "has_placeholder (c # cs) =
     ((c = CHR ''$'' \<and> take 1 cs = ''{'' \<and> CHR ''}'' \<in> set (drop 1 cs)) \<or> has_placeholder cs)"

definition env_var_pattern :: "string \<Rightarrow> bool" where
  "env_var_pattern s =
     (let core = (if s \<noteq> [] \<and> last s = CHR 0x0A then butlast s else s)
      in CHR 0x0A \<notin> set core \<and> has_placeholder core)"

definition env_var_constructor :: "(string \<rightharpoonup> string) \<Rightarrow> string \<Rightarrow> exn + string" where
  "env_var_constructor env value =
     (let expanded_vars = expandvars env value in
      if CHR ''$'' \<in> set expanded_vars then
        Inl (ExpandError value (filter (\<lambda>w. CHR ''$'' \<in> set w) (py_split expanded_vars)))
      else Inr expanded_vars)"

section \<open>Paths and the file system\<close>

text \<open>\<^verbatim>\<open>s.split(sep)\<close> with a one-character separator.\<close>

fun split_on :: "char \<Rightarrow> string \<Rightarrow> string list" where
  "split_on sep [] = [[]]"
| "split_on sep (c # cs) =
     (if c = sep then [] # split_on sep cs
      else (case split_on sep cs of [] \<Rightarrow> [[c]] | w # ws \<Rightarrow> (c # w) # ws))"

text \<open>\<^verbatim>\<open>"/".join(comps)\<close>.\<close>

fun join_sep :: "string list \<Rightarrow> string" where
  "join_sep [] = []"
| "join_sep [x] = x"
| "join_sep (x # y # ys) = x @ ''/'' @ join_sep (y # ys)"

definition rstrip_sep :: "string \<Rightarrow> string" where
  "rstrip_sep s = rev (dropWhile (\<lambda>c. c = CHR ''/'') (rev s))"

text \<open>\<^verbatim>\<open>posixpath.split\<close> and \<^verbatim>\<open>posixpath.dirname\<close>: the text up to the last slash, its
  trailing slashes removed unless it consists of slashes only, and the text after it.\<close>

definition posix_split :: "string \<Rightarrow> string \<times> string" where
  "posix_split p =
     (let head = rev (dropWhile (\<lambda>c. c \<noteq> CHR ''/'') (rev p));
          tail = rev (takeWhile (\<lambda>c. c \<noteq> CHR ''/'') (rev p))
      in (if head \<noteq> [] \<and> head \<noteq> replicate (length head) CHR ''/'' then rstrip_sep head
          else head, tail))"

definition dirname :: "string \<Rightarrow> string" where
  "dirname p =
     (let head = rev (dropWhile (\<lambda>c. c \<noteq> CHR ''/'') (rev p))
      in if head \<noteq> [] \<and> head \<noteq> replicate (length head) CHR ''/'' then rstrip_sep head
         else head)"

definition isabs :: "string \<Rightarrow> bool" where
  "isabs p = (take 1 p = ''/'')"

definition posix_join :: "string \<Rightarrow> string \<Rightarrow> string" where
  "posix_join a b =
     (if isabs b then b
      else if a = [] \<or> last a = CHR ''/'' then a @ b
      else a @ ''/'' @ b)"

text \<open>The loop of \<^verbatim>\<open>posixpath.normpath\<close> over the components, \<open>acc\<close> being
  \<^verbatim>\<open>new_comps\<close>.\<close>

fun norm_comps :: "nat \<Rightarrow> string list \<Rightarrow> string list \<Rightarrow> string list" where
  "norm_comps i [] acc = acc"
| "norm_comps i (part # comps) acc =
     (if part = [] \<or> part = ''.'' then norm_comps i comps acc
      else if part \<noteq> ''..'' \<or> (i = 0 \<and> acc = []) \<or> (acc \<noteq> [] \<and> last acc = ''..'')
        then norm_comps i comps (acc @ [part])
      else if acc \<noteq> [] then norm_comps i comps (butlast acc)
      else norm_comps i comps acc)"

definition normpath :: "string \<Rightarrow> string" where
  "normpath path =
     (if path = [] then ''.''
      else
        let initial_slashes =
              (if isabs path then
                 (if take 2 path = ''//'' \<and> take 3 path \<noteq> ''///'' then 2 else 1)
               else 0);
            comps = norm_comps initial_slashes (split_on CHR ''/'' path) [];
            p = replicate initial_slashes CHR ''/'' @ join_sep comps
        in if p = [] then ''.'' else p)"

text \<open>
  The world outside the interpreter: the environment variables, the working directory
  and the directory tree. A location is the list of names from the root; the tree maps
  the locations that exist to a directory or to a file with its bytes. Symbolic links
  and permissions are not part of the model.
\<close>

datatype inode = Dir | File string

record world =
  environ :: "string \<rightharpoonup> string"
  cwd :: "string list"
  tree :: "string list \<rightharpoonup> inode"

definition getcwd :: "world \<Rightarrow> string" where
  "getcwd w = ''/'' @ join_sep (cwd w)"

definition abspath :: "world \<Rightarrow> string \<Rightarrow> string" where
  "abspath w path =
     (if \<not> isabs path then normpath (posix_join (getcwd w) path) else normpath path)"

text \<open>
  Path resolution of the operating system: every name is looked up in the location
  reached so far, which has to be an existing directory.
\<close>

definition step :: "string list \<Rightarrow> string \<Rightarrow> string list" where
  "step loc name =
     (if name = [] \<or> name = ''.'' then loc
      else if name = ''..'' then butlast loc
      else loc @ [name])"

fun walk :: "(string list \<rightharpoonup> inode) \<Rightarrow> string list \<Rightarrow> string list \<Rightarrow> errno + string list" where
  "walk t loc [] = Inr loc"
| "walk t loc (name # names) =
     (case t loc of
        None \<Rightarrow> Inl ENOENT
      | Some (File _) \<Rightarrow> Inl ENOTDIR
      | Some Dir \<Rightarrow> walk t (step loc name) names)"

definition start_of :: "world \<Rightarrow> string \<Rightarrow> string list" where
  "start_of w p = (if isabs p then [] else cwd w)"

definition os_stat :: "world \<Rightarrow> string \<Rightarrow> errno + inode" where
  "os_stat w p =
     (if p = [] then Inl ENOENT
      else
        (case walk (tree w) (start_of w p) (split_on CHR ''/'' p) of
           Inl e \<Rightarrow> Inl e
         | Inr loc \<Rightarrow> (case tree w loc of None \<Rightarrow> Inl ENOENT | Some n \<Rightarrow> Inr n)))"

text \<open>\<^verbatim>\<open>os.path.exists\<close>: whether \<^verbatim>\<open>os.stat\<close> succeeds.\<close>

definition path_exists :: "world \<Rightarrow> string \<Rightarrow> bool" where
  "path_exists w p = (case os_stat w p of Inl _ \<Rightarrow> False | Inr _ \<Rightarrow> True)"

text \<open>\<^verbatim>\<open>open(filename)\<close> for reading, up to the bytes of the file.\<close>

definition open_read :: "world \<Rightarrow> string \<Rightarrow> exn + string" where
  "open_read w p =
     (case os_stat w p of
        Inl e \<Rightarrow> Inl (OSError e)
      | Inr Dir \<Rightarrow> Inl (OSError EISDIR)
      | Inr (File b) \<Rightarrow> Inr b)"

text \<open>\<^verbatim>\<open>os.mkdir\<close>: the parent has to be an existing directory and the name new.
  Trailing slashes are ignored.\<close>

definition os_mkdir :: "world \<Rightarrow> string \<Rightarrow> errno + world" where
  "os_mkdir w p =
     (if p = [] then Inl ENOENT
      else if rstrip_sep p = [] then Inl EEXIST
      else
        (case walk (tree w) (start_of w p) (butlast (split_on CHR ''/'' (rstrip_sep p))) of
           Inl e \<Rightarrow> Inl e
         | Inr parent \<Rightarrow>
             (case tree w parent of
                None \<Rightarrow> Inl ENOENT
              | Some (File _) \<Rightarrow> Inl ENOTDIR
              | Some Dir \<Rightarrow>
                  (let loc = step parent (last (split_on CHR ''/'' (rstrip_sep p))) in
                   if tree w loc \<noteq> None then Inl EEXIST
                   else Inr (w\<lparr>tree := (tree w)(loc \<mapsto> Dir)\<rparr>)))))"

text \<open>
  \<^verbatim>\<open>os.makedirs(name)\<close> with its defaults. The result is the world it leaves and the
  exception it raises, if any. \<open>makedirs_parts\<close> is the head and tail it computes first.
\<close>

definition makedirs_parts :: "string \<Rightarrow> string \<times> string" where
  "makedirs_parts name =
     (if snd (posix_split name) = [] then posix_split (fst (posix_split name))
      else posix_split name)"

definition mkdir_raise :: "world \<Rightarrow> string \<Rightarrow> world \<times> exn option" where
  "mkdir_raise w name =
     (case os_mkdir w name of Inl e \<Rightarrow> (w, Some (OSError e)) | Inr w' \<Rightarrow> (w', None))"

function makedirs :: "world \<Rightarrow> string \<Rightarrow> world \<times> exn option" where
  "makedirs w name =
     (if fst (makedirs_parts name) \<noteq> [] \<and> snd (makedirs_parts name) \<noteq> []
         \<and> \<not> path_exists w (fst (makedirs_parts name)) then
        (case makedirs w (fst (makedirs_parts name)) of
           (w', Some e) \<Rightarrow>
             if e = OSError EEXIST then
               (if snd (makedirs_parts name) = ''.'' then (w', None) else mkdir_raise w' name)
             else (w', Some e)
         | (w', None) \<Rightarrow>
             if snd (makedirs_parts name) = ''.'' then (w', None) else mkdir_raise w' name)
      else mkdir_raise w name)"
  by pat_completeness auto
termination
proof (relation "measure (\<lambda>(w, name). length name)")
  show "wf (measure (\<lambda>(w, name). length name))" by simp
next
  fix w :: world and name :: string
  have le: "length (fst (posix_split p)) \<le> length p" for p
    unfolding posix_split_def rstrip_sep_def Let_def
    by (simp, metis length_dropWhile_le length_rev order_trans)
  have lt: "length (fst (posix_split p)) < length p" if "snd (posix_split p) \<noteq> []" for p
  proof -
    let ?h = "rev (dropWhile (\<lambda>c. c \<noteq> CHR ''/'') (rev p))"
    let ?t = "rev (takeWhile (\<lambda>c. c \<noteq> CHR ''/'') (rev p))"
    have "length ?h + length ?t = length p"
      by (metis length_append length_rev takeWhile_dropWhile_id add.commute)
    moreover have "?t \<noteq> []" using that by (simp add: posix_split_def Let_def)
    ultimately have "length ?h < length p" by (cases ?t) auto
    moreover have "length (rstrip_sep ?h) \<le> length ?h"
      unfolding rstrip_sep_def by (simp add: length_dropWhile_le)
    ultimately show ?thesis by (simp add: posix_split_def Let_def)
  qed
  assume "fst (makedirs_parts name) \<noteq> [] \<and> snd (makedirs_parts name) \<noteq> []
      \<and> \<not> path_exists w (fst (makedirs_parts name))"
  then have "snd (makedirs_parts name) \<noteq> []" by simp
  then have "length (fst (makedirs_parts name)) < length name"
    unfolding makedirs_parts_def
    using le [of name] lt [of name] lt [of "fst (posix_split name)"]
    by (auto split: if_splits)
  then show "((w, fst (makedirs_parts name)), w, name) \<in> measure (\<lambda>(w, name). length name)"
    by simp
qed

declare makedirs.simps [simp del]

section \<open>The YAML library and the codecs\<close>

text \<open>
  \<^verbatim>\<open>ruamel.yaml\<close> and the codecs are not part of the module; they are parameters of the
  model, collected in the record \<open>platform\<close>.

  \<^item> \<open>compose\<close> is the library's reader, scanner, parser and composer: it turns a text
    into the node graph of its single document (\<open>None\<close> for a stream without a
    document), or raises. A scalar node carries the tag the document or one of the
    library's own resolvers gave it, \<open>None\<close> for a plain scalar that none of them matched.
  \<^item> \<open>scalar_constructor\<close>, \<open>sequence_constructor\<close> and \<open>mapping_constructor\<close> are the
    constructors the library has for the tags other than \<^verbatim>\<open>!env_var\<close> and the string
    tag.
  \<^item> \<open>str_encode codec errors\<close> is \<^verbatim>\<open>str.encode\<close>, \<open>bytes_decode codec\<close> is
    \<^verbatim>\<open>bytes.decode\<close> with strict error handling.
  \<^item> \<open>text_read encoding\<close> is what \<^verbatim>\<open>f.read()\<close> returns for the bytes of a file opened
    in text mode with that encoding.
  \<^item> \<open>tar_extract\<close> is \<^verbatim>\<open>tarfile.open\<close>, \<^verbatim>\<open>extractall\<close> and \<^verbatim>\<open>close\<close> on a byte
    array and a directory, \<open>zip_extract\<close> the same for \<^verbatim>\<open>zipfile.ZipFile\<close>: the world
    they leave and the exception they raise, if any.
\<close>

datatype node =
    ScalarNode "string option" string
  | SequenceNode string "node list"
  | MappingNode string "(node \<times> node) list"

record platform =
  compose :: "string \<Rightarrow> exn + node option"
  scalar_constructor :: "string \<Rightarrow> string \<Rightarrow> exn + pyval"
  sequence_constructor :: "string \<Rightarrow> pyval list \<Rightarrow> exn + pyval"
  mapping_constructor :: "string \<Rightarrow> (pyval \<times> pyval) list \<Rightarrow> exn + pyval"
  str_encode :: "string \<Rightarrow> string \<Rightarrow> string \<Rightarrow> exn + string"
  bytes_decode :: "string \<Rightarrow> string \<Rightarrow> exn + string"
  text_read :: "string \<Rightarrow> string \<Rightarrow> exn + string"
  tar_extract :: "string \<Rightarrow> string \<Rightarrow> world \<Rightarrow> world \<times> exn option"
  zip_extract :: "string \<Rightarrow> string \<Rightarrow> world \<Rightarrow> world \<times> exn option"

text \<open>
  The tag of a scalar once the resolver of \<^verbatim>\<open>replace_environment_variables\<close> is
  registered: a plain scalar left untagged by the library's resolvers is an
  \<^verbatim>\<open>!env_var\<close> when the pattern matches it, and a string otherwise.
\<close>

definition resolve :: "string option \<Rightarrow> string \<Rightarrow> string" where
  "resolve t value =
     (case t of
        Some tag \<Rightarrow> tag
      | None \<Rightarrow> if env_var_pattern value then ''!env_var'' else ''tag:yaml.org,2002:str'')"

text \<open>
  Construction of the Python object of a node. A scalar tagged \<^verbatim>\<open>!env_var\<close> goes to
  \<^verbatim>\<open>env_var_constructor\<close>; a scalar with the string tag goes to the constructor of
  \<^verbatim>\<open>fix_yaml_loader\<close>, which returns the text of the scalar, as the library's own
  constructor for strings does. An exception of any node ends the load.

  The children are visited here in document order. The library postpones the content
  of a nested collection until the scalars beside it are constructed, so in a document
  with several failing nodes it may raise the exception of another one of them than
  this function returns. The statements below that name the exception of a load
  either have one failing node only or hold for whichever failing node raises.
\<close>

function (sequential) construct_object :: "platform \<Rightarrow> (string \<rightharpoonup> string) \<Rightarrow> node \<Rightarrow> exn + pyval"
  and construct_items :: "platform \<Rightarrow> (string \<rightharpoonup> string) \<Rightarrow> node list \<Rightarrow> exn + pyval list"
  and construct_pairs ::
    "platform \<Rightarrow> (string \<rightharpoonup> string) \<Rightarrow> (node \<times> node) list \<Rightarrow> exn + (pyval \<times> pyval) list"
where
  "construct_object P env (ScalarNode t value) =
     (if resolve t value = ''!env_var'' then
        (case env_var_constructor env value of Inl e \<Rightarrow> Inl e | Inr s \<Rightarrow> Inr (PStr s))
      else if resolve t value = ''tag:yaml.org,2002:str'' then Inr (PStr value)
      else scalar_constructor P (resolve t value) value)"
| "construct_object P env (SequenceNode tag ns) =
     (case construct_items P env ns of
        Inl e \<Rightarrow> Inl e
      | Inr vs \<Rightarrow> sequence_constructor P tag vs)"
| "construct_object P env (MappingNode tag kvs) =
     (case construct_pairs P env kvs of
        Inl e \<Rightarrow> Inl e
      | Inr items \<Rightarrow> mapping_constructor P tag items)"
| "construct_items P env [] = Inr []"
| "construct_items P env (n # ns) =
     (case construct_object P env n of
        Inl e \<Rightarrow> Inl e
      | Inr v \<Rightarrow> (case construct_items P env ns of Inl e \<Rightarrow> Inl e | Inr vs \<Rightarrow> Inr (v # vs)))"
| "construct_pairs P env [] = Inr []"
| "construct_pairs P env ((kn, vn) # kvs) =
     (case construct_object P env kn of
        Inl e \<Rightarrow> Inl e
      | Inr k \<Rightarrow>
          (case construct_object P env vn of
             Inl e \<Rightarrow> Inl e
           | Inr v \<Rightarrow>
               (case construct_pairs P env kvs of
                  Inl e \<Rightarrow> Inl e
                | Inr items \<Rightarrow> Inr ((k, v) # items))))"
  by pat_completeness auto
termination
  by (relation "measure (case_sum (\<lambda>(P, env, n). size n)
        (case_sum (\<lambda>(P, env, ns). size_list size ns)
          (\<lambda>(P, env, kvs). size_list (size_prod size size) kvs)))") auto

text \<open>\<^verbatim>\<open>yaml_parser.load(content)\<close>: compose the document, then construct its object.\<close>

definition yaml_load :: "platform \<Rightarrow> (string \<rightharpoonup> string) \<Rightarrow> string \<Rightarrow> exn + pyval" where
  "yaml_load P env content =
     (case compose P content of
        Inl e \<Rightarrow> Inl e
      | Inr None \<Rightarrow> Inr PNone
      | Inr (Some n) \<Rightarrow> construct_object P env n)"

text \<open>
  The object the library constructs for a node when the resolver and the constructor of
  \<^verbatim>\<open>replace_environment_variables\<close> are not registered: an untagged plain scalar is a
  string.
\<close>

definition library_tag :: "string option \<Rightarrow> string" where
  "library_tag t = (case t of Some tag \<Rightarrow> tag | None \<Rightarrow> ''tag:yaml.org,2002:str'')"

function (sequential) library_object :: "platform \<Rightarrow> node \<Rightarrow> exn + pyval"
  and library_items :: "platform \<Rightarrow> node list \<Rightarrow> exn + pyval list"
  and library_pairs :: "platform \<Rightarrow> (node \<times> node) list \<Rightarrow> exn + (pyval \<times> pyval) list"
where
  "library_object P (ScalarNode t value) =
     (if library_tag t = ''tag:yaml.org,2002:str'' then Inr (PStr value)
      else scalar_constructor P (library_tag t) value)"
| "library_object P (SequenceNode tag ns) =
     (case library_items P ns of
        Inl e \<Rightarrow> Inl e
      | Inr vs \<Rightarrow> sequence_constructor P tag vs)"
| "library_object P (MappingNode tag kvs) =
     (case library_pairs P kvs of
        Inl e \<Rightarrow> Inl e
      | Inr items \<Rightarrow> mapping_constructor P tag items)"
| "library_items P [] = Inr []"
| "library_items P (n # ns) =
     (case library_object P n of
        Inl e \<Rightarrow> Inl e
      | Inr v \<Rightarrow> (case library_items P ns of Inl e \<Rightarrow> Inl e | Inr vs \<Rightarrow> Inr (v # vs)))"
| "library_pairs P [] = Inr []"
| "library_pairs P ((kn, vn) # kvs) =
     (case library_object P kn of
        Inl e \<Rightarrow> Inl e
      | Inr k \<Rightarrow>
          (case library_object P vn of
             Inl e \<Rightarrow> Inl e
           | Inr v \<Rightarrow>
               (case library_pairs P kvs of
                  Inl e \<Rightarrow> Inl e
                | Inr items \<Rightarrow> Inr ((k, v) # items))))"
  by pat_completeness auto
termination
  by (relation "measure (case_sum (\<lambda>(P, n). size n)
        (case_sum (\<lambda>(P, ns). size_list size ns)
          (\<lambda>(P, kvs). size_list (size_prod size size) kvs)))") auto

text \<open>
  The scalars of a node, in document order, each with its tag and text; and the node
  in which every scalar tagged \<^verbatim>\<open>!env_var\<close> is replaced by a string scalar: by its
  expansion when no dollar sign is left in it, by its own text otherwise.
\<close>

function (sequential) scalars :: "node \<Rightarrow> (string option \<times> string) list"
  and scalars_items :: "node list \<Rightarrow> (string option \<times> string) list"
  and scalars_pairs :: "(node \<times> node) list \<Rightarrow> (string option \<times> string) list"
where
  "scalars (ScalarNode t value) = [(t, value)]"
| "scalars (SequenceNode tag ns) = scalars_items ns"
| "scalars (MappingNode tag kvs) = scalars_pairs kvs"
| "scalars_items [] = []"
| "scalars_items (n # ns) = scalars n @ scalars_items ns"
| "scalars_pairs [] = []"
| "scalars_pairs ((kn, vn) # kvs) = scalars kn @ scalars vn @ scalars_pairs kvs"
  by pat_completeness auto
termination
  by (relation "measure (case_sum size
        (case_sum (size_list size) (size_list (size_prod size size))))") auto

function (sequential) expand_node :: "(string \<rightharpoonup> string) \<Rightarrow> node \<Rightarrow> node"
  and expand_items :: "(string \<rightharpoonup> string) \<Rightarrow> node list \<Rightarrow> node list"
  and expand_pairs :: "(string \<rightharpoonup> string) \<Rightarrow> (node \<times> node) list \<Rightarrow> (node \<times> node) list"
where
  "expand_node env (ScalarNode t value) =
     (if resolve t value = ''!env_var'' then
        ScalarNode (Some ''tag:yaml.org,2002:str'')
          (if CHR ''$'' \<in> set (expandvars env value) then value else expandvars env value)
      else ScalarNode t value)"
| "expand_node env (SequenceNode tag ns) = SequenceNode tag (expand_items env ns)"
| "expand_node env (MappingNode tag kvs) = MappingNode tag (expand_pairs env kvs)"
| "expand_items env [] = []"
| "expand_items env (n # ns) = expand_node env n # expand_items env ns"
| "expand_pairs env [] = []"
| "expand_pairs env ((kn, vn) # kvs) =
     (expand_node env kn, expand_node env vn) # expand_pairs env kvs"
  by pat_completeness auto
termination
  by (relation "measure (case_sum (\<lambda>(env, n). size n)
        (case_sum (\<lambda>(env, ns). size_list size ns)
          (\<lambda>(env, kvs). size_list (size_prod size size) kvs)))") auto

text \<open>
  The placeholder scalars that the environment does not resolve: the texts, in document
  order, of the scalars tagged \<^verbatim>\<open>!env_var\<close> whose expansion still holds a dollar
  sign; and the \<^verbatim>\<open>ValueError\<close> that \<^verbatim>\<open>env_var_constructor\<close> raises for such a text.
\<close>

definition unresolved_in :: "(string \<rightharpoonup> string) \<Rightarrow> (string option \<times> string) list \<Rightarrow> string list" where
  "unresolved_in env ss =
     map snd (filter (\<lambda>(t, value). resolve t value = ''!env_var''
                        \<and> CHR ''$'' \<in> set (expandvars env value)) ss)"

definition unresolved :: "(string \<rightharpoonup> string) \<Rightarrow> node \<Rightarrow> string list" where
  "unresolved env n = unresolved_in env (scalars n)"

definition unresolved_error :: "(string \<rightharpoonup> string) \<Rightarrow> string \<Rightarrow> exn" where
  "unresolved_error env value =
     ExpandError value (filter (\<lambda>w. CHR ''$'' \<in> set w) (py_split (expandvars env value)))"

text \<open>
  The conversion of the recovery path:
  \<^verbatim>\<open>content.encode("utf-8").decode("raw_unicode_escape").encode("utf-16", "surrogatepass").decode("utf-16")\<close>.
\<close>

definition recode :: "platform \<Rightarrow> string \<Rightarrow> exn + string" where
  "recode P content =
     (case str_encode P ''utf-8'' ''strict'' content of
        Inl e \<Rightarrow> Inl e
      | Inr b1 \<Rightarrow>
          (case bytes_decode P ''raw_unicode_escape'' b1 of
             Inl e \<Rightarrow> Inl e
           | Inr t \<Rightarrow>
               (case str_encode P ''utf-16'' ''surrogatepass'' t of
                  Inl e \<Rightarrow> Inl e
                | Inr b2 \<Rightarrow> bytes_decode P ''utf-16'' b2)))"

section \<open>Reading YAML\<close>

fun is_scanner_error :: "exn \<Rightarrow> bool" where
  "is_scanner_error (ScannerError _) = True"
| "is_scanner_error _ = False"

text \<open>
  \<^verbatim>\<open>read_yaml\<close>, with the texts it hands to the parser recorded in order. The handler
  of the \<^verbatim>\<open>ScannerError\<close> converts the text and loads the result; an exception raised
  inside the handler is the one that leaves the function.
\<close>

definition read_yaml_traced ::
  "platform \<Rightarrow> (string \<rightharpoonup> string) \<Rightarrow> string \<Rightarrow> string list \<times> (exn + pyval)" where
  "read_yaml_traced P env content =
     (case yaml_load P env content of
        Inr v \<Rightarrow> ([content], Inr (py_or v (PDict [])))
      | Inl e \<Rightarrow>
          if is_scanner_error e then
            (case recode P content of
               Inl e' \<Rightarrow> ([content], Inl e')
             | Inr content' \<Rightarrow>
                 ([content, content'],
                  (case yaml_load P env content' of
                     Inl e' \<Rightarrow> Inl e'
                   | Inr v \<Rightarrow> Inr (py_or v (PDict [])))))
          else ([content], Inl e))"

definition read_yaml :: "platform \<Rightarrow> (string \<rightharpoonup> string) \<Rightarrow> string \<Rightarrow> exn + pyval" where
  "read_yaml P env content = snd (read_yaml_traced P env content)"

section \<open>Reading files\<close>

text \<open>The two messages of the module's own errors, \<^verbatim>\<open>str.format\<close> applied.\<close>

definition not_found_message :: "string \<Rightarrow> string" where
  "not_found_message filename =
     ''File '' @ [CHR 0x27] @ filename @ [CHR 0x27] @ '' does not exist.''"

definition invalid_config_message :: "string \<Rightarrow> string \<Rightarrow> string" where
  "invalid_config_message filename found =
     ''Tried to load invalid config file '' @ [CHR 0x27] @ filename @ [CHR 0x27]
       @ ''. Expected a key value mapping but found '' @ found @ ''.''"

definition read_file :: "platform \<Rightarrow> world \<Rightarrow> string \<Rightarrow> string \<Rightarrow> exn + string" where
  "read_file P w filename encoding =
     (case open_read w filename of
        Inl e \<Rightarrow>
          if e = OSError ENOENT then Inl (ValueError (not_found_message filename))
          else Inl e
      | Inr b \<Rightarrow> text_read P encoding b)"

fun is_dict :: "pyval \<Rightarrow> bool" where
  "is_dict (PDict _) = True"
| "is_dict _ = False"

definition read_config_file :: "platform \<Rightarrow> world \<Rightarrow> string \<Rightarrow> exn + pyval" where
  "read_config_file P w filename =
     (case read_file P w filename ''utf-8'' of
        Inl e \<Rightarrow> Inl e
      | Inr text \<Rightarrow>
          (case read_yaml P (environ w) text of
             Inl e \<Rightarrow> Inl e
           | Inr content \<Rightarrow>
               if content = PNone then Inr (PDict [])
               else if is_dict content then Inr content
               else Inl (ValueError (invalid_config_message filename (type_str content)))))"

definition read_yaml_file :: "platform \<Rightarrow> world \<Rightarrow> string \<Rightarrow> exn + pyval" where
  "read_yaml_file P w filename =
     (case read_file P w filename ''utf-8'' of
        Inl e \<Rightarrow> Inl e
      | Inr text \<Rightarrow> read_yaml P (environ w) text)"

section \<open>Archives\<close>

datatype attempt = Tar | Zip

fun is_tar_error :: "exn \<Rightarrow> bool" where
  "is_tar_error (TarError _) = True"
| "is_tar_error _ = False"

text \<open>\<^verbatim>\<open>unarchive\<close>, with the formats it tries recorded in order.\<close>

definition unarchive_traced ::
  "platform \<Rightarrow> world \<Rightarrow> string \<Rightarrow> string \<Rightarrow> attempt list \<times> world \<times> (exn + string)" where
  "unarchive_traced P w byte_array directory =
     (case tar_extract P byte_array directory w of
        (w1, None) \<Rightarrow> ([Tar], w1, Inr directory)
      | (w1, Some e) \<Rightarrow>
          if is_tar_error e then
            (case zip_extract P byte_array directory w1 of
               (w2, None) \<Rightarrow> ([Tar, Zip], w2, Inr directory)
             | (w2, Some e') \<Rightarrow> ([Tar, Zip], w2, Inl e'))
          else ([Tar], w1, Inl e))"

definition unarchive :: "platform \<Rightarrow> world \<Rightarrow> string \<Rightarrow> string \<Rightarrow> world \<times> (exn + string)" where
  "unarchive P w byte_array directory = snd (unarchive_traced P w byte_array directory)"

section \<open>Directories\<close>

definition is_subdirectory :: "world \<Rightarrow> string option \<Rightarrow> string option \<Rightarrow> bool" where
  "is_subdirectory w path potential_parent_directory =
     (case path of
        None \<Rightarrow> False
      | Some p \<Rightarrow>
          (case potential_parent_directory of
             None \<Rightarrow> False
           | Some q \<Rightarrow> contains (abspath w p) (abspath w q)))"

text \<open>
  Following the spec's words for what \<^verbatim>\<open>is_subdirectory\<close> avoids, path-segment
  comparison: the names of the absolute candidate parent are the first names of the
  absolute path.
\<close>

definition path_components :: "string \<Rightarrow> string list" where
  "path_components p = filter (\<lambda>c. c \<noteq> []) (split_on CHR ''/'' p)"

definition inside_by_segments :: "world \<Rightarrow> string \<Rightarrow> string \<Rightarrow> bool" where
  "inside_by_segments w path parent =
     (take (length (path_components (abspath w parent))) (path_components (abspath w path))
        = path_components (abspath w parent))"

definition create_directory_for_file :: "world \<Rightarrow> string \<Rightarrow> world \<times> exn option" where
  "create_directory_for_file w file_path =
     (case makedirs w (dirname file_path) of
        (w', None) \<Rightarrow> (w', None)
      | (w', Some e) \<Rightarrow> if e = OSError EEXIST then (w', None) else (w', Some e))"

section \<open>A sample platform\<close>

text \<open>
  One instance of the parameters, for the concrete runs below: what the library and
  the codecs return on a handful of ASCII texts, and a small directory tree.
\<close>

definition sample_compose :: "string \<Rightarrow> exn + node option" where
  "sample_compose content =
     (if content = [] then Inr None
      else if content = ''# settings'' then Inr None
      else if content = ''${FOO}'' then Inr (Some (ScalarNode None ''${FOO}''))
      else if content = ''${MISSING}'' then Inr (Some (ScalarNode None ''${MISSING}''))
      else if content = CHR 0x22 # ''${FOO}'' @ [CHR 0x22] then
        Inr (Some (ScalarNode (Some ''tag:yaml.org,2002:str'') ''${FOO}''))
      else if content = CHR 0x22 # ''${MISSING}'' @ [CHR 0x22] then
        Inr (Some (ScalarNode (Some ''tag:yaml.org,2002:str'') ''${MISSING}''))
      else if content = ''# ${MISSING}'' then Inr None
      else if content = ''key: ${MISSING}'' then
        Inr (Some (MappingNode ''tag:yaml.org,2002:map''
               [(ScalarNode None ''key'', ScalarNode None ''${MISSING}'')]))
      else if content = ''first: a'' @ [CHR 0x0A] @ ''second: ${MISSING}'' then
        Inr (Some (MappingNode ''tag:yaml.org,2002:map''
               [(ScalarNode None ''first'', ScalarNode None ''a''),
                (ScalarNode None ''second'', ScalarNode None ''${MISSING}'')]))
      else if content = ''- a'' @ [CHR 0x0A] @ ''- ${FOO}'' then
        Inr (Some (SequenceNode ''tag:yaml.org,2002:seq''
               [ScalarNode None ''a'', ScalarNode None ''${FOO}'']))
      else if content = ''outer:'' @ [CHR 0x0A] @ ''  inner: ${FOO}'' then
        Inr (Some (MappingNode ''tag:yaml.org,2002:map''
               [(ScalarNode None ''outer'',
                 MappingNode ''tag:yaml.org,2002:map''
                   [(ScalarNode None ''inner'', ScalarNode None ''${FOO}'')])]))
      else if content = ''key: ${FOO}'' then
        Inr (Some (MappingNode ''tag:yaml.org,2002:map''
               [(ScalarNode None ''key'', ScalarNode None ''${FOO}'')]))
      else if content = ''- a'' @ [CHR 0x0A] @ ''- b'' then
        Inr (Some (SequenceNode ''tag:yaml.org,2002:seq''
               [ScalarNode None ''a'', ScalarNode None ''b'']))
      else if content = ''[]'' then Inr (Some (SequenceNode ''tag:yaml.org,2002:seq'' []))
      else if content = ''false'' then
        Inr (Some (ScalarNode (Some ''tag:yaml.org,2002:bool'') ''false''))
      else if content = CHR 0x5C # ''u0041: @x'' then
        Inl (ScannerError ''found character @ that cannot start any token, line 1, column 9'')
      else if content = ''A: @x'' then
        Inl (ScannerError ''found character @ that cannot start any token, line 1, column 4'')
      else if content = ''a: ]'' then Inl (YAMLError ''expected the node content'')
      else Inl (YAMLError ''not one of the sample documents''))"

definition sample_scalar :: "string \<Rightarrow> string \<Rightarrow> exn + pyval" where
  "sample_scalar tag value =
     (if tag = ''tag:yaml.org,2002:str'' then Inr (PStr value)
      else if tag = ''tag:yaml.org,2002:bool'' then Inr (PBool (value = ''true''))
      else Inl (YAMLError ''could not determine a constructor''))"

definition sample_sequence :: "string \<Rightarrow> pyval list \<Rightarrow> exn + pyval" where
  "sample_sequence tag vs =
     (if tag = ''tag:yaml.org,2002:seq'' then Inr (PList vs)
      else Inl (YAMLError ''could not determine a constructor''))"

definition sample_mapping :: "string \<Rightarrow> (pyval \<times> pyval) list \<Rightarrow> exn + pyval" where
  "sample_mapping tag items =
     (if tag = ''tag:yaml.org,2002:map'' then Inr (PDict items)
      else Inl (YAMLError ''could not determine a constructor''))"

text \<open>The codecs on ASCII text: UTF-8 leaves it as it is, UTF-16 writes the byte order
  mark and two bytes for every character, and the raw escape \<^verbatim>\<open>A\<close> stands
  for the letter A.\<close>

fun raw_unescape :: "string \<Rightarrow> string" where
  "raw_unescape (a # b # c # d # e # f # rest) =
     (if [a, b] = [CHR 0x5C, CHR ''u''] \<and> [c, d, e, f] = ''0041'' then CHR ''A'' # raw_unescape rest
      else a # raw_unescape (b # c # d # e # f # rest))"
| "raw_unescape s = s"

fun utf16_units :: "string \<Rightarrow> string option" where
  "utf16_units [] = Some []"
| "utf16_units [lo] = None"
| "utf16_units (lo # hi # rest) =
     (if hi = CHR 0x00 then map_option ((#) lo) (utf16_units rest) else None)"

definition sample_encode :: "string \<Rightarrow> string \<Rightarrow> string \<Rightarrow> exn + string" where
  "sample_encode codec errors text =
     (if codec = ''utf-8'' then Inr text
      else if codec = ''utf-16'' then
        Inr ([CHR 0xFF, CHR 0xFE] @ concat (map (\<lambda>c. [c, CHR 0x00]) text))
      else Inl (ValueError ''unknown encoding''))"

definition sample_decode :: "string \<Rightarrow> string \<Rightarrow> exn + string" where
  "sample_decode codec b =
     (if codec = ''raw_unicode_escape'' then Inr (raw_unescape b)
      else if codec = ''utf-16'' then
        (if take 2 b = [CHR 0xFF, CHR 0xFE] then
           (case utf16_units (drop 2 b) of
              Some text \<Rightarrow> Inr text
            | None \<Rightarrow> Inl (UnicodeError ''utf-16 codec cannot decode''))
         else Inl (UnicodeError ''utf-16 codec cannot decode''))
      else Inl (ValueError ''unknown encoding''))"

definition sample_text_read :: "string \<Rightarrow> string \<Rightarrow> exn + string" where
  "sample_text_read encoding b =
     (if encoding = ''utf-8'' then Inr b else Inl (ValueError ''unknown encoding''))"

text \<open>The archive readers: one tar archive and one zip archive, each holding the file
  \<^verbatim>\<open>hello.txt\<close>. Extraction writes the file into the target directory, which it
  makes first when it is missing.\<close>

definition sample_write :: "string \<Rightarrow> world \<Rightarrow> world \<times> exn option" where
  "sample_write directory w =
     (case os_stat w directory of
        Inl e \<Rightarrow> (w, Some (OSError e))
      | Inr (File _) \<Rightarrow> (w, Some (OSError ENOTDIR))
      | Inr Dir \<Rightarrow>
          (case walk (tree w) (start_of w directory) (split_on CHR ''/'' directory) of
             Inl e \<Rightarrow> (w, Some (OSError e))
           | Inr loc \<Rightarrow> (w\<lparr>tree := (tree w)(loc @ [''hello.txt''] \<mapsto> File ''hello'')\<rparr>, None)))"

definition sample_unpack :: "string \<Rightarrow> world \<Rightarrow> world \<times> exn option" where
  "sample_unpack directory w =
     (if path_exists w directory then sample_write directory w
      else
        (case makedirs w directory of
           (w', Some e) \<Rightarrow> (w', Some e)
         | (w', None) \<Rightarrow> sample_write directory w'))"

definition sample_tar :: "string \<Rightarrow> string \<Rightarrow> world \<Rightarrow> world \<times> exn option" where
  "sample_tar byte_array directory w =
     (if byte_array = ''tar of hello.txt'' then sample_unpack directory w
      else (w, Some (TarError ''file could not be opened successfully'')))"

definition sample_zip :: "string \<Rightarrow> string \<Rightarrow> world \<Rightarrow> world \<times> exn option" where
  "sample_zip byte_array directory w =
     (if byte_array = ''zip of hello.txt'' then sample_unpack directory w
      else (w, Some (BadZipFile ''File is not a zip file'')))"

definition sample_platform :: platform where
  "sample_platform =
     \<lparr>compose = sample_compose,
      scalar_constructor = sample_scalar,
      sequence_constructor = sample_sequence,
      mapping_constructor = sample_mapping,
      str_encode = sample_encode,
      bytes_decode = sample_decode,
      text_read = sample_text_read,
      tar_extract = sample_tar,
      zip_extract = sample_zip\<rparr>"

definition sample_world :: world where
  "sample_world =
     \<lparr>environ = [''FOO'' \<mapsto> ''bar''],
      cwd = [''home''],
      tree = [[] \<mapsto> Dir,
              [''home''] \<mapsto> Dir,
              [''home'', ''list.yml''] \<mapsto> File (''- a'' @ [CHR 0x0A] @ ''- b''),
              [''home'', ''flow.yml''] \<mapsto> File ''[]'',
              [''home'', ''empty.yml''] \<mapsto> File []]\<rparr>"

lemmas sample_defs =
  sample_platform_def sample_compose_def sample_scalar_def sample_sequence_def
  sample_mapping_def sample_encode_def sample_decode_def sample_text_read_def
  sample_tar_def sample_zip_def sample_unpack_def sample_write_def sample_world_def

lemmas lookup_defs = os_stat_def start_of_def isabs_def step_def

lemmas unresolved_defs =
  unresolved_def unresolved_in_def resolve_def env_var_pattern_def is_word_def library_tag_def


section \<open>General facts\<close>

lemma is_word_brace [simp]: "\<not> is_word CHR ''{''"
  by (simp add: is_word_def)

lemma expandvars_braced:
  assumes "CHR ''}'' \<notin> set name"
  shows "expandvars env (''${'' @ name @ ''}'') =
    (case env name of Some v \<Rightarrow> v | None \<Rightarrow> ''${'' @ name @ ''}'')"
proof -
  have tw: "takeWhile (\<lambda>x. x \<noteq> CHR ''}'') (name @ ''}'') = name"
    using assms by (induction name) auto
  have dw: "dropWhile (\<lambda>x. x \<noteq> CHR ''}'') (name @ ''}'') = ''}''"
    using assms by (induction name) auto
  show ?thesis
    by (simp add: tw dw split: option.split)
qed

lemma env_var_pattern_braced:
  assumes "CHR 0x0A \<notin> set name"
  shows "env_var_pattern (''${'' @ name @ ''}'')"
  using assms by (simp add: env_var_pattern_def butlast_append)

lemma contains_nil [simp]: "contains s []"
  by (cases s) simp_all

lemma contains_infix: "contains (xs @ sub @ ys) sub"
proof (induction xs)
  case Nil
  then show ?case by (cases sub) simp_all
next
  case (Cons x xs)
  then show ?case by simp
qed

text \<open>\<open>contains\<close> is the substring test: the text is some prefix, the substring and some
  suffix.\<close>

lemma contains_iff: "contains s sub = (\<exists>xs ys. s = xs @ sub @ ys)"
proof
  show "contains s sub \<Longrightarrow> \<exists>xs ys. s = xs @ sub @ ys"
  proof (induction s)
    case Nil
    then show ?case by simp
  next
    case (Cons c cs)
    from Cons.prems consider "take (length sub) (c # cs) = sub" | "contains cs sub"
      by auto
    then show ?case
    proof cases
      case 1
      then have "c # cs = [] @ sub @ drop (length sub) (c # cs)"
        by (metis append_Nil append_take_drop_id)
      then show ?thesis by blast
    next
      case 2
      then obtain xs ys where "cs = xs @ sub @ ys" using Cons.IH by blast
      then have "c # cs = (c # xs) @ sub @ ys" by simp
      then show ?thesis by blast
    qed
  qed
next
  assume "\<exists>xs ys. s = xs @ sub @ ys"
  then show "contains s sub" using contains_infix by blast
qed

lemma not_found_message_names: "contains (not_found_message filename) filename"
proof -
  have "not_found_message filename =
      (''File '' @ [CHR 0x27]) @ filename @ ([CHR 0x27] @ '' does not exist.'')"
    by (simp add: not_found_message_def)
  then show ?thesis by (simp only: contains_infix)
qed


lemma read_yaml_value:
  "yaml_load P env content = Inr v \<Longrightarrow> read_yaml P env content = Inr (py_or v (PDict []))"
  by (simp add: read_yaml_def read_yaml_traced_def)

lemma read_yaml_other_error:
  "yaml_load P env content = Inl e \<Longrightarrow> \<not> is_scanner_error e \<Longrightarrow> read_yaml P env content = Inl e"
  by (simp add: read_yaml_def read_yaml_traced_def)

lemma py_or_empty_cases: "truthy (py_or v (PDict [])) \<or> py_or v (PDict []) = PDict []"
  by (simp add: py_or_def)

lemma read_yaml_result_cases:
  "read_yaml P env content = Inr r \<Longrightarrow> truthy r \<or> r = PDict []"
  using py_or_empty_cases
  by (auto simp: read_yaml_def read_yaml_traced_def split: sum.splits if_splits)

lemma read_yaml_file_result_cases:
  "read_yaml_file P w filename = Inr r \<Longrightarrow> truthy r \<or> r = PDict []"
  by (auto simp: read_yaml_file_def split: sum.splits dest: read_yaml_result_cases)

text \<open>The \<^verbatim>\<open>or {}\<close> of \<^verbatim>\<open>read_yaml\<close> leaves every mapping as it is.\<close>

lemma read_yaml_mapping:
  "yaml_load P env content = Inr (PDict items) \<Longrightarrow> read_yaml P env content = Inr (PDict items)"
  by (cases items) (simp_all add: read_yaml_value py_or_def)

section \<open>Environment variables\<close>

lemma env_var_constructor_cases:
  "env_var_constructor env value =
     (if CHR ''$'' \<in> set (expandvars env value) then Inl (unresolved_error env value)
      else Inr (expandvars env value))"
  by (simp add: env_var_constructor_def unresolved_error_def Let_def)

lemma unresolved_in_append [simp]:
  "unresolved_in env (xs @ ys) = unresolved_in env xs @ unresolved_in env ys"
  by (simp add: unresolved_in_def)

lemma unresolved_in_Nil [simp]: "unresolved_in env [] = []"
  by (simp add: unresolved_in_def)

lemma unresolved_in_single:
  "unresolved_in env [(t, value)] =
     (if resolve t value = ''!env_var'' \<and> CHR ''$'' \<in> set (expandvars env value) then [value]
      else [])"
  by (simp add: unresolved_in_def)

lemma resolve_library_tag:
  "resolve t value \<noteq> ''!env_var'' \<Longrightarrow> resolve t value = library_tag t"
  by (cases t) (simp_all add: resolve_def library_tag_def split: if_splits)

text \<open>When the environment resolves every placeholder of a node, the node is
  constructed as the library constructs the expanded node.\<close>

lemma construct_resolved:
  "unresolved_in env (scalars n) = [] \<Longrightarrow>
     construct_object P env n = library_object P (expand_node env n)"
  "unresolved_in env (scalars_items ns) = [] \<Longrightarrow>
     construct_items P env ns = library_items P (expand_items env ns)"
  "unresolved_in env (scalars_pairs kvs) = [] \<Longrightarrow>
     construct_pairs P env kvs = library_pairs P (expand_pairs env kvs)"
proof (induction P env n and P env ns and P env kvs
    rule: construct_object_construct_items_construct_pairs.induct)
  case (1 P env t "value")
  show ?case
  proof (cases "resolve t value = ''!env_var''")
    case True
    then have "CHR ''$'' \<notin> set (expandvars env value)"
      using 1 by (simp add: unresolved_in_single split: if_splits)
    then show ?thesis
      using True by (simp add: env_var_constructor_cases library_tag_def)
  next
    case False
    then show ?thesis
      using resolve_library_tag [OF False] by simp
  qed
qed (auto split: sum.splits)

text \<open>A node with an unresolved placeholder is not constructed.\<close>

lemma construct_unresolved_fails:
  "unresolved_in env (scalars n) \<noteq> [] \<Longrightarrow> \<exists>e. construct_object P env n = Inl e"
  "unresolved_in env (scalars_items ns) \<noteq> [] \<Longrightarrow> \<exists>e. construct_items P env ns = Inl e"
  "unresolved_in env (scalars_pairs kvs) \<noteq> [] \<Longrightarrow> \<exists>e. construct_pairs P env kvs = Inl e"
proof (induction P env n and P env ns and P env kvs
    rule: construct_object_construct_items_construct_pairs.induct)
  case (1 P env t "value")
  then show ?case
    by (simp add: unresolved_in_single env_var_constructor_cases split: if_splits)
next
  case (2 P env tag ns)
  then show ?case by (auto split: sum.splits)
next
  case (3 P env tag kvs)
  then show ?case by (auto split: sum.splits)
next
  case (4 P env)
  then show ?case by simp
next
  case (5 P env n ns)
  show ?case
  proof (cases "construct_object P env n")
    case (Inl e)
    then show ?thesis by simp
  next
    case c: (Inr v1)
    have "unresolved_in env (scalars n) = []"
      using "5.IH"(1) c by auto
    then have "unresolved_in env (scalars_items ns) \<noteq> []"
      using "5.prems" by simp
    then obtain e where "construct_items P env ns = Inl e"
      using "5.IH"(2) [OF c] by blast
    then show ?thesis using c by simp
  qed
next
  case (6 P env)
  then show ?case by simp
next
  case (7 P env kn vn kvs)
  show ?case
  proof (cases "construct_object P env kn")
    case (Inl e)
    then show ?thesis by simp
  next
    case k: (Inr k1)
    show ?thesis
    proof (cases "construct_object P env vn")
      case (Inl e)
      then show ?thesis using k by simp
    next
      case v: (Inr v1)
      have "unresolved_in env (scalars kn) = []"
        using "7.IH"(1) k by auto
      moreover have "unresolved_in env (scalars vn) = []"
        using "7.IH"(2) [OF k] v by auto
      ultimately have "unresolved_in env (scalars_pairs kvs) \<noteq> []"
        using "7.prems" by simp
      then obtain e where "construct_pairs P env kvs = Inl e"
        using "7.IH"(3) [OF k v] by blast
      then show ?thesis using k v by simp
    qed
  qed
qed

text \<open>When the library constructs the expanded node, the exception is the one of the
  first unresolved placeholder in the order of the visit.\<close>

lemma construct_unresolved_error:
  "library_object P (expand_node env n) = Inr v \<Longrightarrow> unresolved_in env (scalars n) \<noteq> [] \<Longrightarrow>
     construct_object P env n = Inl (unresolved_error env (hd (unresolved_in env (scalars n))))"
  "library_items P (expand_items env ns) = Inr vs \<Longrightarrow>
     unresolved_in env (scalars_items ns) \<noteq> [] \<Longrightarrow>
     construct_items P env ns =
       Inl (unresolved_error env (hd (unresolved_in env (scalars_items ns))))"
  "library_pairs P (expand_pairs env kvs) = Inr items \<Longrightarrow>
     unresolved_in env (scalars_pairs kvs) \<noteq> [] \<Longrightarrow>
     construct_pairs P env kvs =
       Inl (unresolved_error env (hd (unresolved_in env (scalars_pairs kvs))))"
proof (induction P env n and P env ns and P env kvs arbitrary: v and vs and items
    rule: construct_object_construct_items_construct_pairs.induct)
  case (1 P env t "value")
  then show ?case
    by (simp add: unresolved_in_single env_var_constructor_cases split: if_splits)
next
  case (2 P env tag ns)
  then show ?case by (auto split: sum.splits)
next
  case (3 P env tag kvs)
  then show ?case by (auto split: sum.splits)
next
  case (4 P env)
  then show ?case by simp
next
  case (5 P env n ns)
  from "5.prems"(1) obtain v1 vs1 where
    l1: "library_object P (expand_node env n) = Inr v1"
    and l2: "library_items P (expand_items env ns) = Inr vs1"
    by (auto split: sum.splits)
  show ?case
  proof (cases "unresolved_in env (scalars n) = []")
    case False
    then show ?thesis using "5.IH"(1) [OF l1] by simp
  next
    case True
    then have c: "construct_object P env n = Inr v1"
      using l1 by (simp add: construct_resolved(1))
    have "unresolved_in env (scalars_items ns) \<noteq> []" using True "5.prems"(2) by simp
    then show ?thesis using "5.IH"(2) [OF c l2] c True by simp
  qed
next
  case (6 P env)
  then show ?case by simp
next
  case (7 P env kn vn kvs)
  from "7.prems"(1) obtain k1 v1 items1 where
    l1: "library_object P (expand_node env kn) = Inr k1"
    and l2: "library_object P (expand_node env vn) = Inr v1"
    and l3: "library_pairs P (expand_pairs env kvs) = Inr items1"
    by (auto split: sum.splits)
  show ?case
  proof (cases "unresolved_in env (scalars kn) = []")
    case False
    then show ?thesis using "7.IH"(1) [OF l1] by simp
  next
    case kn: True
    then have c1: "construct_object P env kn = Inr k1"
      using l1 by (simp add: construct_resolved(1))
    show ?thesis
    proof (cases "unresolved_in env (scalars vn) = []")
      case False
      then show ?thesis using "7.IH"(2) [OF c1 l2] c1 kn by simp
    next
      case vn: True
      then have c2: "construct_object P env vn = Inr v1"
        using l2 by (simp add: construct_resolved(1))
      have "unresolved_in env (scalars_pairs kvs) \<noteq> []" using kn vn "7.prems"(2) by simp
      then show ?thesis using "7.IH"(3) [OF c1 c2 l3] c1 c2 kn vn by simp
    qed
  qed
qed

text \<open>The expanded node has the scalars of the node in their places, each placeholder
  replaced by its expansion as a string.\<close>

lemma scalars_expand:
  "scalars (expand_node env n) =
     map (\<lambda>(t, value). if resolve t value = ''!env_var''
            then (Some ''tag:yaml.org,2002:str'',
                  if CHR ''$'' \<in> set (expandvars env value) then value else expandvars env value)
            else (t, value)) (scalars n)"
  "scalars_items (expand_items env ns) =
     map (\<lambda>(t, value). if resolve t value = ''!env_var''
            then (Some ''tag:yaml.org,2002:str'',
                  if CHR ''$'' \<in> set (expandvars env value) then value else expandvars env value)
            else (t, value)) (scalars_items ns)"
  "scalars_pairs (expand_pairs env kvs) =
     map (\<lambda>(t, value). if resolve t value = ''!env_var''
            then (Some ''tag:yaml.org,2002:str'',
                  if CHR ''$'' \<in> set (expandvars env value) then value else expandvars env value)
            else (t, value)) (scalars_pairs kvs)"
  by (induction env n and env ns and env kvs rule: expand_node_expand_items_expand_pairs.induct)
    simp_all

text \<open>
  Claim C1, as the spec states it, on three runs. A double-quoted scalar
  \<^verbatim>\<open>"${FOO}"\<close> is a string for the library's resolver, so with \<^verbatim>\<open>FOO=bar\<close> set
  \<^verbatim>\<open>read_yaml\<close> returns the placeholder itself; with \<^verbatim>\<open>MISSING\<close> unset the quoted
  \<^verbatim>\<open>"${MISSING}"\<close> loads without an error, and so does a comment that holds the
  placeholder.
\<close>

theorem read_yaml_quoted_placeholder_counterexample:
  "contains (CHR 0x22 # ''${FOO}'' @ [CHR 0x22]) ''${FOO}''
   \<and> environ sample_world ''FOO'' = Some ''bar''
   \<and> read_yaml sample_platform (environ sample_world) (CHR 0x22 # ''${FOO}'' @ [CHR 0x22]) =
       Inr (PStr ''${FOO}'')
   \<and> contains (CHR 0x22 # ''${MISSING}'' @ [CHR 0x22]) ''${MISSING}''
   \<and> environ sample_world ''MISSING'' = None
   \<and> read_yaml sample_platform (environ sample_world) (CHR 0x22 # ''${MISSING}'' @ [CHR 0x22]) =
       Inr (PStr ''${MISSING}'')
   \<and> contains ''# ${MISSING}'' ''${MISSING}''
   \<and> read_yaml sample_platform (environ sample_world) ''# ${MISSING}'' = Inr (PDict [])"
  by (simp add: sample_defs yaml_load_def resolve_def read_yaml_def read_yaml_traced_def
      py_or_def)

text \<open>
  Claim C1, amended. Let the text compose to a document, and call a scalar of it a
  placeholder when the resolver of \<^verbatim>\<open>read_yaml\<close> gives it the tag \<^verbatim>\<open>!env_var\<close>, as it
  does for every plain (unquoted, untagged) scalar \<^verbatim>\<open>${NAME}\<close>. When the environment
  resolves every placeholder of the document, so that no dollar sign is left in an
  expansion, the load is the library's construction of the document in which each
  placeholder is replaced by its expansion as a string: with \<^verbatim>\<open>FOO=bar\<close> the scalar
  \<^verbatim>\<open>${FOO}\<close> is loaded as the string \<^verbatim>\<open>bar\<close> wherever it stands, as the document, the
  value of a key, the item of a sequence or deeper, and every other scalar is as the
  document has it. When a placeholder is left unresolved,
  as every plain scalar \<^verbatim>\<open>${MISSING}\<close> is with \<^verbatim>\<open>MISSING\<close> unset, the load fails; and
  when the library constructs the rest of the document, \<^verbatim>\<open>read_yaml\<close> fails with the
  \<^verbatim>\<open>ValueError\<close> of \<^verbatim>\<open>env_var_constructor\<close> for one of the unresolved placeholders, which
  names that scalar and the words of it that still hold a dollar sign.
\<close>

theorem read_yaml_env_var:
  assumes "compose P content = Inr (Some n)"
  shows "(unresolved env n = [] \<longrightarrow>
            yaml_load P env content = library_object P (expand_node env n))
       \<and> (unresolved env n = [] \<and> library_object P (expand_node env n) = Inr v \<longrightarrow>
            read_yaml P env content = Inr (py_or v (PDict [])))
       \<and> (unresolved env n \<noteq> [] \<longrightarrow> (\<exists>e. yaml_load P env content = Inl e))
       \<and> (unresolved env n \<noteq> [] \<and> library_object P (expand_node env n) = Inr v \<longrightarrow>
            (\<exists>s \<in> set (unresolved env n).
               yaml_load P env content = Inl (unresolved_error env s)
               \<and> read_yaml P env content = Inl (unresolved_error env s)))
       \<and> (CHR ''}'' \<notin> set name \<and> CHR 0x0A \<notin> set name \<and> env name = Some x
            \<and> CHR ''$'' \<notin> set x \<longrightarrow>
            expand_node env (ScalarNode None (''${'' @ name @ ''}'')) =
              ScalarNode (Some ''tag:yaml.org,2002:str'') x
            \<and> library_object P (ScalarNode (Some ''tag:yaml.org,2002:str'') x) = Inr (PStr x))
       \<and> (CHR ''}'' \<notin> set name \<and> CHR 0x0A \<notin> set name \<and> env name = None
            \<and> (None, ''${'' @ name @ ''}'') \<in> set (scalars n) \<longrightarrow>
            ''${'' @ name @ ''}'' \<in> set (unresolved env n)
            \<and> unresolved_error env (''${'' @ name @ ''}'') =
                ExpandError (''${'' @ name @ ''}'')
                  (filter (\<lambda>w. CHR ''$'' \<in> set w) (py_split (''${'' @ name @ ''}''))))
       \<and> scalars (expand_node env n) =
           map (\<lambda>(t, value). if resolve t value = ''!env_var''
                  then (Some ''tag:yaml.org,2002:str'',
                        if CHR ''$'' \<in> set (expandvars env value) then value
                        else expandvars env value)
                  else (t, value)) (scalars n)"
proof -
  let ?s = "''${'' @ name @ ''}''"
  note c7 = scalars_expand(1) [of env n]
  have load: "yaml_load P env content = construct_object P env n"
    using assms by (simp add: yaml_load_def)
  have c1: "unresolved env n = [] \<longrightarrow>
      yaml_load P env content = library_object P (expand_node env n)"
    using load by (simp add: unresolved_def construct_resolved(1))
  have c2: "unresolved env n = [] \<and> library_object P (expand_node env n) = Inr v \<longrightarrow>
      read_yaml P env content = Inr (py_or v (PDict []))"
    using c1 by (auto intro: read_yaml_value)
  have c3: "unresolved env n \<noteq> [] \<longrightarrow> (\<exists>e. yaml_load P env content = Inl e)"
    using load construct_unresolved_fails(1) [of env n P] by (simp add: unresolved_def)
  have c4: "unresolved env n \<noteq> [] \<and> library_object P (expand_node env n) = Inr v \<longrightarrow>
      (\<exists>s \<in> set (unresolved env n).
         yaml_load P env content = Inl (unresolved_error env s)
         \<and> read_yaml P env content = Inl (unresolved_error env s))"
  proof
    assume a: "unresolved env n \<noteq> [] \<and> library_object P (expand_node env n) = Inr v"
    let ?h = "hd (unresolved env n)"
    have l: "yaml_load P env content = Inl (unresolved_error env ?h)"
      using a load construct_unresolved_error(1) [of P env n v] by (simp add: unresolved_def)
    have "\<not> is_scanner_error (unresolved_error env ?h)"
      by (simp add: unresolved_error_def)
    then have "read_yaml P env content = Inl (unresolved_error env ?h)"
      using l by (rule read_yaml_other_error [rotated])
    moreover have "?h \<in> set (unresolved env n)" using a by simp
    ultimately show "\<exists>s \<in> set (unresolved env n).
         yaml_load P env content = Inl (unresolved_error env s)
         \<and> read_yaml P env content = Inl (unresolved_error env s)"
      using l by blast
  qed
  have c5: "CHR ''}'' \<notin> set name \<and> CHR 0x0A \<notin> set name \<and> env name = Some x
      \<and> CHR ''$'' \<notin> set x \<longrightarrow>
      expand_node env (ScalarNode None ?s) = ScalarNode (Some ''tag:yaml.org,2002:str'') x
      \<and> library_object P (ScalarNode (Some ''tag:yaml.org,2002:str'') x) = Inr (PStr x)"
  proof
    assume a: "CHR ''}'' \<notin> set name \<and> CHR 0x0A \<notin> set name \<and> env name = Some x
      \<and> CHR ''$'' \<notin> set x"
    then have tag: "resolve None ?s = ''!env_var''"
      using env_var_pattern_braced [of name] by (simp add: resolve_def)
    have ex: "expandvars env ?s = x"
      using a expandvars_braced [of name env] by simp
    show "expand_node env (ScalarNode None ?s) = ScalarNode (Some ''tag:yaml.org,2002:str'') x
      \<and> library_object P (ScalarNode (Some ''tag:yaml.org,2002:str'') x) = Inr (PStr x)"
      using a tag ex by (simp add: library_tag_def del: expandvars.simps)
  qed
  have c6: "CHR ''}'' \<notin> set name \<and> CHR 0x0A \<notin> set name \<and> env name = None
      \<and> (None, ?s) \<in> set (scalars n) \<longrightarrow>
      ?s \<in> set (unresolved env n)
      \<and> unresolved_error env ?s =
          ExpandError ?s (filter (\<lambda>w. CHR ''$'' \<in> set w) (py_split ?s))"
  proof
    assume a: "CHR ''}'' \<notin> set name \<and> CHR 0x0A \<notin> set name \<and> env name = None
      \<and> (None, ?s) \<in> set (scalars n)"
    then have tag: "resolve None ?s = ''!env_var''"
      using env_var_pattern_braced [of name] by (simp add: resolve_def)
    have ex: "expandvars env ?s = ?s"
      using a expandvars_braced [of name env] by simp
    have d: "CHR ''$'' \<in> set (expandvars env ?s)" by (simp only: ex) simp
    have "?s \<in> snd ` {p \<in> set (scalars n). case p of (t, value) \<Rightarrow>
        resolve t value = ''!env_var'' \<and> CHR ''$'' \<in> set (expandvars env value)}"
      using a tag d by (force simp del: expandvars.simps)
    then have m: "?s \<in> set (unresolved env n)"
      by (simp add: unresolved_def unresolved_in_def del: expandvars.simps)
    have "unresolved_error env ?s =
        ExpandError ?s (filter (\<lambda>w. CHR ''$'' \<in> set w) (py_split ?s))"
      by (simp only: unresolved_error_def ex)
    then show "?s \<in> set (unresolved env n)
      \<and> unresolved_error env ?s =
          ExpandError ?s (filter (\<lambda>w. CHR ''$'' \<in> set w) (py_split ?s))"
      using m by simp
  qed
  from c1 c2 c3 c4 c5 c6 c7 show ?thesis by blast
qed

text \<open>The runs of the amended C1 with \<^verbatim>\<open>FOO=bar\<close> set and \<^verbatim>\<open>MISSING\<close> unset: the
  placeholder as the value of a key, as the item of a sequence, in a nested mapping and as
  the document.\<close>

theorem read_yaml_env_var_witness:
  "compose sample_platform ''key: ${FOO}'' =
     Inr (Some (MappingNode ''tag:yaml.org,2002:map''
            [(ScalarNode None ''key'', ScalarNode None ''${FOO}'')]))
   \<and> environ sample_world ''FOO'' = Some ''bar''
   \<and> environ sample_world ''MISSING'' = None
   \<and> read_yaml sample_platform (environ sample_world) ''key: ${FOO}'' =
       Inr (PDict [(PStr ''key'', PStr ''bar'')])
   \<and> read_yaml sample_platform (environ sample_world) (''- a'' @ [CHR 0x0A] @ ''- ${FOO}'') =
       Inr (PList [PStr ''a'', PStr ''bar''])
   \<and> read_yaml sample_platform (environ sample_world)
        (''outer:'' @ [CHR 0x0A] @ ''  inner: ${FOO}'') =
       Inr (PDict [(PStr ''outer'', PDict [(PStr ''inner'', PStr ''bar'')])])
   \<and> read_yaml sample_platform (environ sample_world) ''${FOO}'' = Inr (PStr ''bar'')
   \<and> expand_node (environ sample_world) (ScalarNode None ''${FOO}'') =
       ScalarNode (Some ''tag:yaml.org,2002:str'') ''bar''
   \<and> read_yaml sample_platform (environ sample_world) ''${MISSING}'' =
       Inl (ExpandError ''${MISSING}'' [''${MISSING}''])
   \<and> read_yaml sample_platform (environ sample_world) ''key: ${MISSING}'' =
       Inl (ExpandError ''${MISSING}'' [''${MISSING}''])
   \<and> read_yaml sample_platform (environ sample_world)
        (''first: a'' @ [CHR 0x0A] @ ''second: ${MISSING}'') =
       Inl (ExpandError ''${MISSING}'' [''${MISSING}''])"
proof -
  let ?env = "environ sample_world"
  let ?map = "''tag:yaml.org,2002:map''"
  let ?n1 = "MappingNode ?map [(ScalarNode None ''key'', ScalarNode None ''${FOO}'')]"
  let ?n2 = "SequenceNode ''tag:yaml.org,2002:seq'' [ScalarNode None ''a'', ScalarNode None ''${FOO}'']"
  let ?n3 = "MappingNode ?map [(ScalarNode None ''outer'',
      MappingNode ?map [(ScalarNode None ''inner'', ScalarNode None ''${FOO}'')])]"
  let ?n4 = "ScalarNode None ''${FOO}''"
  let ?n5 = "ScalarNode None ''${MISSING}''"
  let ?n6 = "MappingNode ?map [(ScalarNode None ''key'', ScalarNode None ''${MISSING}'')]"
  let ?n7 = "MappingNode ?map [(ScalarNode None ''first'', ScalarNode None ''a''),
      (ScalarNode None ''second'', ScalarNode None ''${MISSING}'')]"
  let ?err = "ExpandError ''${MISSING}'' [''${MISSING}'']"
  have e1: "?env ''FOO'' = Some ''bar''" and e2: "?env ''MISSING'' = None"
    by (simp_all add: sample_world_def)
  have c1: "compose sample_platform ''key: ${FOO}'' = Inr (Some ?n1)"
    and c2: "compose sample_platform (''- a'' @ [CHR 0x0A] @ ''- ${FOO}'') = Inr (Some ?n2)"
    and c3: "compose sample_platform (''outer:'' @ [CHR 0x0A] @ ''  inner: ${FOO}'') = Inr (Some ?n3)"
    and c4: "compose sample_platform ''${FOO}'' = Inr (Some ?n4)"
    and c5: "compose sample_platform ''${MISSING}'' = Inr (Some ?n5)"
    and c6: "compose sample_platform ''key: ${MISSING}'' = Inr (Some ?n6)"
    and c7: "compose sample_platform (''first: a'' @ [CHR 0x0A] @ ''second: ${MISSING}'') =
      Inr (Some ?n7)"
    by (simp_all add: sample_platform_def sample_compose_def)
  have u1: "unresolved ?env ?n1 = []" and u2: "unresolved ?env ?n2 = []"
    and u3: "unresolved ?env ?n3 = []" and u4: "unresolved ?env ?n4 = []"
    by (simp_all add: unresolved_defs sample_world_def)
  have u5: "unresolved ?env ?n5 = [''${MISSING}'']"
    and u6: "unresolved ?env ?n6 = [''${MISSING}'']"
    and u7: "unresolved ?env ?n7 = [''${MISSING}'']"
    by (simp_all add: unresolved_defs sample_world_def)
  have l1: "library_object sample_platform (expand_node ?env ?n1) =
      Inr (PDict [(PStr ''key'', PStr ''bar'')])"
    and l2: "library_object sample_platform (expand_node ?env ?n2) =
      Inr (PList [PStr ''a'', PStr ''bar''])"
    and l3: "library_object sample_platform (expand_node ?env ?n3) =
      Inr (PDict [(PStr ''outer'', PDict [(PStr ''inner'', PStr ''bar'')])])"
    and l4: "library_object sample_platform (expand_node ?env ?n4) = Inr (PStr ''bar'')"
    by (simp_all add: unresolved_defs sample_defs)
  have l5: "library_object sample_platform (expand_node ?env ?n5) = Inr (PStr ''${MISSING}'')"
    and l6: "library_object sample_platform (expand_node ?env ?n6) =
      Inr (PDict [(PStr ''key'', PStr ''${MISSING}'')])"
    and l7: "library_object sample_platform (expand_node ?env ?n7) =
      Inr (PDict [(PStr ''first'', PStr ''a''), (PStr ''second'', PStr ''${MISSING}'')])"
    by (simp_all add: unresolved_defs sample_defs)
  have er: "unresolved_error ?env ''${MISSING}'' = ?err"
    by (simp add: unresolved_error_def sample_world_def is_word_def py_split_def is_space_def)
  have x: "expand_node ?env ?n4 = ScalarNode (Some ''tag:yaml.org,2002:str'') ''bar''"
    using read_yaml_env_var [OF c4, of ?env PNone "''FOO''" "''bar''"] e1 by simp
  have r1: "read_yaml sample_platform ?env ''key: ${FOO}'' =
      Inr (PDict [(PStr ''key'', PStr ''bar'')])"
    using read_yaml_env_var [OF c1, of ?env _ "[]" "[]"] u1 l1 by (simp add: py_or_def)
  have r2: "read_yaml sample_platform ?env (''- a'' @ [CHR 0x0A] @ ''- ${FOO}'') =
      Inr (PList [PStr ''a'', PStr ''bar''])"
    using read_yaml_env_var [OF c2, of ?env _ "[]" "[]"] u2 l2 by (simp add: py_or_def)
  have r3: "read_yaml sample_platform ?env (''outer:'' @ [CHR 0x0A] @ ''  inner: ${FOO}'') =
      Inr (PDict [(PStr ''outer'', PDict [(PStr ''inner'', PStr ''bar'')])])"
    using read_yaml_env_var [OF c3, of ?env _ "[]" "[]"] u3 l3 by (simp add: py_or_def)
  have r4: "read_yaml sample_platform ?env ''${FOO}'' = Inr (PStr ''bar'')"
    using read_yaml_env_var [OF c4, of ?env _ "[]" "[]"] u4 l4 by (simp add: py_or_def)
  have r5: "read_yaml sample_platform ?env ''${MISSING}'' = Inl ?err"
    using read_yaml_env_var [OF c5, of ?env _ "[]" "[]"] u5 l5 er by simp
  have r6: "read_yaml sample_platform ?env ''key: ${MISSING}'' = Inl ?err"
    using read_yaml_env_var [OF c6, of ?env _ "[]" "[]"] u6 l6 er by simp
  have r7: "read_yaml sample_platform ?env (''first: a'' @ [CHR 0x0A] @ ''second: ${MISSING}'') =
      Inl ?err"
    using read_yaml_env_var [OF c7, of ?env _ "[]" "[]"] u7 l7 er by simp
  from c1 e1 e2 r1 r2 r3 r4 x r5 r6 r7 show ?thesis by blast
qed

section \<open>The recovery path\<close>

text \<open>
  Claim C2, as the spec states it, on one run: the first load fails in the scanner, the
  converted text fails in the scanner at another place, and \<^verbatim>\<open>read_yaml\<close> does not
  surface the first error.
\<close>

theorem read_yaml_retry_error_counterexample:
  "yaml_load sample_platform Map.empty (CHR 0x5C # ''u0041: @x'') =
     Inl (ScannerError ''found character @ that cannot start any token, line 1, column 9'')
   \<and> recode sample_platform (CHR 0x5C # ''u0041: @x'') = Inr ''A: @x''
   \<and> yaml_load sample_platform Map.empty ''A: @x'' =
     Inl (ScannerError ''found character @ that cannot start any token, line 1, column 4'')
   \<and> read_yaml sample_platform Map.empty (CHR 0x5C # ''u0041: @x'') \<noteq>
     Inl (ScannerError ''found character @ that cannot start any token, line 1, column 9'')"
  by (simp add: sample_defs yaml_load_def recode_def read_yaml_def read_yaml_traced_def)

text \<open>
  Claim C2, amended. \<^verbatim>\<open>read_yaml\<close> hands at most two texts to the parser. An error of
  the first load that is not a scanner error leaves the function at once. After a
  scanner error the text is converted and, when the conversion succeeds, loaded once
  more: the result of that second load is the result of the call, and an error of the
  conversion or of the second load is the error the caller sees.
\<close>

theorem read_yaml_recovery:
  "length (fst (read_yaml_traced P env content)) \<le> 2
   \<and> (yaml_load P env content = Inl e \<and> \<not> is_scanner_error e \<longrightarrow>
        read_yaml_traced P env content = ([content], Inl e))
   \<and> (yaml_load P env content = Inl e \<and> is_scanner_error e \<and> recode P content = Inl e' \<longrightarrow>
        read_yaml_traced P env content = ([content], Inl e'))
   \<and> (yaml_load P env content = Inl e \<and> is_scanner_error e \<and> recode P content = Inr content'
        \<and> yaml_load P env content' = Inl e' \<longrightarrow>
        read_yaml_traced P env content = ([content, content'], Inl e'))
   \<and> (yaml_load P env content = Inl e \<and> is_scanner_error e \<and> recode P content = Inr content'
        \<and> yaml_load P env content' = Inr v \<longrightarrow>
        read_yaml_traced P env content = ([content, content'], Inr (py_or v (PDict []))))"
  by (auto simp: read_yaml_traced_def split: sum.splits)

text \<open>Two runs of the amended C2: a scanner error with a failing second load, and a
  parser error, which is not retried.\<close>

theorem read_yaml_recovery_witness:
  "yaml_load sample_platform Map.empty (CHR 0x5C # ''u0041: @x'') =
     Inl (ScannerError ''found character @ that cannot start any token, line 1, column 9'')
   \<and> recode sample_platform (CHR 0x5C # ''u0041: @x'') = Inr ''A: @x''
   \<and> yaml_load sample_platform Map.empty ''A: @x'' =
     Inl (ScannerError ''found character @ that cannot start any token, line 1, column 4'')
   \<and> read_yaml_traced sample_platform Map.empty (CHR 0x5C # ''u0041: @x'') =
       ([CHR 0x5C # ''u0041: @x'', ''A: @x''],
        Inl (ScannerError ''found character @ that cannot start any token, line 1, column 4''))
   \<and> yaml_load sample_platform Map.empty ''a: ]'' = Inl (YAMLError ''expected the node content'')
   \<and> read_yaml_traced sample_platform Map.empty ''a: ]'' =
       ([''a: ]''], Inl (YAMLError ''expected the node content''))"
proof -
  let ?c = "CHR 0x5C # ''u0041: @x''"
  let ?e = "ScannerError ''found character @ that cannot start any token, line 1, column 9''"
  let ?e' = "ScannerError ''found character @ that cannot start any token, line 1, column 4''"
  have l1: "yaml_load sample_platform Map.empty ?c = Inl ?e"
    by (simp add: sample_defs yaml_load_def)
  have rc: "recode sample_platform ?c = Inr ''A: @x''"
    by (simp add: sample_defs recode_def)
  have l2: "yaml_load sample_platform Map.empty ''A: @x'' = Inl ?e'"
    by (simp add: sample_defs yaml_load_def)
  have l3: "yaml_load sample_platform Map.empty ''a: ]'' = Inl (YAMLError ''expected the node content'')"
    by (simp add: sample_defs yaml_load_def)
  have s: "is_scanner_error ?e" by simp
  have n: "\<not> is_scanner_error (YAMLError ''expected the node content'')" by simp
  from read_yaml_recovery [of sample_platform Map.empty ?c ?e ?e' "''A: @x''" PNone] l1 rc l2 s
  have r1: "read_yaml_traced sample_platform Map.empty ?c = ([?c, ''A: @x''], Inl ?e')"
    by blast
  from read_yaml_recovery [of sample_platform Map.empty "''a: ]''"
      "YAMLError ''expected the node content''" ?e' "[]" PNone] l3 n
  have r2: "read_yaml_traced sample_platform Map.empty ''a: ]'' =
       ([''a: ]''], Inl (YAMLError ''expected the node content''))"
    by blast
  from l1 rc l2 r1 l3 r2 show ?thesis by blast
qed

section \<open>Empty and false documents\<close>



text \<open>
  Claim C10. When the load of the text, or the second load of the recovery path,
  yields a value that is false for Python (\<^verbatim>\<open>None\<close>, \<^verbatim>\<open>False\<close>, zero, the empty
  string, an empty sequence or mapping), \<^verbatim>\<open>read_yaml\<close> returns the empty mapping; so
  neither \<^verbatim>\<open>read_yaml\<close> nor \<^verbatim>\<open>read_yaml_file\<close> ever returns \<^verbatim>\<open>False\<close>, \<^verbatim>\<open>0\<close>, \<^verbatim>\<open>0.0\<close>,
  the empty string or the empty list.
\<close>

theorem read_yaml_falsy:
  "(yaml_load P env content = Inr v \<and> \<not> truthy v \<longrightarrow> read_yaml P env content = Inr (PDict []))
   \<and> (yaml_load P env content = Inl e \<and> is_scanner_error e \<and> recode P content = Inr content'
        \<and> yaml_load P env content' = Inr v \<and> \<not> truthy v \<longrightarrow>
        read_yaml P env content = Inr (PDict []))
   \<and> read_yaml P env content \<noteq> Inr (PBool False)
   \<and> read_yaml P env content \<noteq> Inr (PInt 0)
   \<and> read_yaml P env content \<noteq> Inr (PFloat (Finite 0))
   \<and> read_yaml P env content \<noteq> Inr (PStr [])
   \<and> read_yaml P env content \<noteq> Inr (PList [])
   \<and> read_yaml_file P w filename \<noteq> Inr (PBool False)
   \<and> read_yaml_file P w filename \<noteq> Inr (PInt 0)
   \<and> read_yaml_file P w filename \<noteq> Inr (PFloat (Finite 0))
   \<and> read_yaml_file P w filename \<noteq> Inr (PStr [])
   \<and> read_yaml_file P w filename \<noteq> Inr (PList [])"
proof -
  have a: "yaml_load P env content = Inr v \<and> \<not> truthy v \<longrightarrow> read_yaml P env content = Inr (PDict [])"
    by (simp add: read_yaml_value py_or_def)
  have b: "yaml_load P env content = Inl e \<and> is_scanner_error e \<and> recode P content = Inr content'
        \<and> yaml_load P env content' = Inr v \<and> \<not> truthy v \<longrightarrow>
        read_yaml P env content = Inr (PDict [])"
    by (simp add: read_yaml_def read_yaml_traced_def py_or_def)
  have c: "read_yaml P env content \<noteq> Inr r" if "\<not> truthy r" "r \<noteq> PDict []" for r
    using that read_yaml_result_cases by blast
  have d: "read_yaml_file P w filename \<noteq> Inr r" if "\<not> truthy r" "r \<noteq> PDict []" for r
    using that read_yaml_file_result_cases by blast
  show ?thesis
    using a b by (simp add: c d)
qed

text \<open>The run of C10 on the documents \<^verbatim>\<open>false\<close> and \<^verbatim>\<open>[]\<close>.\<close>

theorem read_yaml_falsy_witness:
  "yaml_load sample_platform Map.empty ''false'' = Inr (PBool False)
   \<and> \<not> truthy (PBool False)
   \<and> yaml_load sample_platform Map.empty ''[]'' = Inr (PList [])
   \<and> \<not> truthy (PList [])
   \<and> read_yaml sample_platform Map.empty ''false'' = Inr (PDict [])
   \<and> read_yaml sample_platform Map.empty ''[]'' = Inr (PDict [])"
proof -
  have l1: "yaml_load sample_platform Map.empty ''false'' = Inr (PBool False)"
    by (simp add: sample_defs yaml_load_def resolve_def)
  have l2: "yaml_load sample_platform Map.empty ''[]'' = Inr (PList [])"
    by (simp add: sample_defs yaml_load_def)
  from read_yaml_falsy [of sample_platform Map.empty "''false''" "PBool False"] l1
  have r1: "read_yaml sample_platform Map.empty ''false'' = Inr (PDict [])" by simp
  from read_yaml_falsy [of sample_platform Map.empty "''[]''" "PList []"] l2
  have r2: "read_yaml sample_platform Map.empty ''[]'' = Inr (PDict [])" by simp
  from l1 l2 r1 r2 show ?thesis by simp
qed

section \<open>Files\<close>

text \<open>
  Claim C5, as the spec states it, on one run: the path \<^verbatim>\<open>list.yml/x\<close> runs through
  a regular file, so it does not exist; opening it raises \<^verbatim>\<open>NotADirectoryError\<close>,
  which \<^verbatim>\<open>read_file\<close> does not catch, and both readers fail with that error.
\<close>

theorem read_config_file_not_a_directory_counterexample:
  "\<not> path_exists sample_world ''list.yml/x''
   \<and> read_config_file sample_platform sample_world ''list.yml/x'' = Inl (OSError ENOTDIR)
   \<and> read_yaml_file sample_platform sample_world ''list.yml/x'' = Inl (OSError ENOTDIR)"
  by (simp add: sample_world_def path_exists_def lookup_defs open_read_def read_file_def
      read_config_file_def read_yaml_file_def)

text \<open>
  Claim C5, amended. For every path that the operating system reports as not found
  (\<^verbatim>\<open>ENOENT\<close>, Python's \<^verbatim>\<open>FileNotFoundError\<close>), \<^verbatim>\<open>read_config_file\<close> and
  \<^verbatim>\<open>read_yaml_file\<close> fail with the \<^verbatim>\<open>ValueError\<close> whose message is
  \<^verbatim>\<open>File '<path>' does not exist.\<close>, which holds the path as it was given.
\<close>

theorem read_config_file_not_found:
  assumes "os_stat w filename = Inl ENOENT"
  shows "read_config_file P w filename = Inl (ValueError (not_found_message filename))
       \<and> read_yaml_file P w filename = Inl (ValueError (not_found_message filename))
       \<and> contains (not_found_message filename) filename"
proof -
  have "read_file P w filename ''utf-8'' = Inl (ValueError (not_found_message filename))"
    using assms by (simp add: read_file_def open_read_def)
  then show ?thesis
    by (simp add: read_config_file_def read_yaml_file_def not_found_message_names)
qed

text \<open>The run of the amended C5 on a name that the working directory does not have.\<close>

theorem read_config_file_not_found_witness:
  "os_stat sample_world ''nothing.yml'' = Inl ENOENT
   \<and> read_config_file sample_platform sample_world ''nothing.yml'' =
       Inl (ValueError (not_found_message ''nothing.yml''))
   \<and> read_yaml_file sample_platform sample_world ''nothing.yml'' =
       Inl (ValueError (not_found_message ''nothing.yml''))"
proof -
  have s: "os_stat sample_world ''nothing.yml'' = Inl ENOENT"
    by (simp add: sample_defs lookup_defs)
  from read_config_file_not_found [OF s, of sample_platform] s show ?thesis by simp
qed




section \<open>Archives\<close>

text \<open>
  Claim C7, as the spec states it, on one run: the target of the extraction is a regular
  file, the tar attempt fails with an \<^verbatim>\<open>OSError\<close>, which is not a
  \<^verbatim>\<open>tarfile.TarError\<close>, and \<^verbatim>\<open>unarchive\<close> fails with it without trying zip.
\<close>

theorem unarchive_tar_oserror_counterexample:
  "tar_extract sample_platform ''tar of hello.txt'' ''/home/list.yml'' sample_world =
     (sample_world, Some (OSError ENOTDIR))
   \<and> unarchive_traced sample_platform sample_world ''tar of hello.txt'' ''/home/list.yml'' =
     ([Tar], sample_world, Inl (OSError ENOTDIR))
   \<and> Zip \<notin> set (fst (unarchive_traced sample_platform sample_world ''tar of hello.txt''
        ''/home/list.yml''))"
proof -
  have t: "tar_extract sample_platform ''tar of hello.txt'' ''/home/list.yml'' sample_world =
     (sample_world, Some (OSError ENOTDIR))"
    by (simp add: sample_defs lookup_defs path_exists_def)
  then show ?thesis
    by (simp add: unarchive_traced_def)
qed

text \<open>
  Claim C7, amended. \<^verbatim>\<open>unarchive\<close> tries tar first. When the tar attempt succeeds it
  returns the directory. Zip is tried exactly when the tar attempt raises a
  \<^verbatim>\<open>tarfile.TarError\<close>, on the world the tar attempt left: when the zip attempt
  succeeds \<^verbatim>\<open>unarchive\<close> returns the directory, and when it fails its exception is the
  one raised. Any other exception of the tar attempt is raised at once.
\<close>

theorem unarchive_order:
  "(tar_extract P byte_array directory w = (w1, None) \<longrightarrow>
      unarchive_traced P w byte_array directory = ([Tar], w1, Inr directory))
   \<and> (tar_extract P byte_array directory w = (w1, Some e) \<and> \<not> is_tar_error e \<longrightarrow>
      unarchive_traced P w byte_array directory = ([Tar], w1, Inl e))
   \<and> (tar_extract P byte_array directory w = (w1, Some e) \<and> is_tar_error e
        \<and> zip_extract P byte_array directory w1 = (w2, None) \<longrightarrow>
      unarchive_traced P w byte_array directory = ([Tar, Zip], w2, Inr directory))
   \<and> (tar_extract P byte_array directory w = (w1, Some e) \<and> is_tar_error e
        \<and> zip_extract P byte_array directory w1 = (w2, Some e') \<longrightarrow>
      unarchive_traced P w byte_array directory = ([Tar, Zip], w2, Inl e'))
   \<and> (Zip \<in> set (fst (unarchive_traced P w byte_array directory))) =
       (case snd (tar_extract P byte_array directory w) of
          None \<Rightarrow> False
        | Some x \<Rightarrow> is_tar_error x)
   \<and> hd (fst (unarchive_traced P w byte_array directory)) = Tar"
  by (auto simp: unarchive_traced_def split: prod.splits option.splits)

text \<open>The runs of the amended C7 on bytes that are no archive and on a tar archive.\<close>

theorem unarchive_order_witness:
  "tar_extract sample_platform ''garbage'' ''/home'' sample_world =
     (sample_world, Some (TarError ''file could not be opened successfully''))
   \<and> is_tar_error (TarError ''file could not be opened successfully'')
   \<and> zip_extract sample_platform ''garbage'' ''/home'' sample_world =
     (sample_world, Some (BadZipFile ''File is not a zip file''))
   \<and> unarchive_traced sample_platform sample_world ''garbage'' ''/home'' =
     ([Tar, Zip], sample_world, Inl (BadZipFile ''File is not a zip file''))
   \<and> snd (tar_extract sample_platform ''tar of hello.txt'' ''/home'' sample_world) = None
   \<and> fst (unarchive_traced sample_platform sample_world ''tar of hello.txt'' ''/home'') = [Tar]
   \<and> snd (snd (unarchive_traced sample_platform sample_world ''tar of hello.txt'' ''/home'')) =
       Inr ''/home''"
proof -
  let ?te = "TarError ''file could not be opened successfully''"
  let ?ze = "BadZipFile ''File is not a zip file''"
  have t1: "tar_extract sample_platform ''garbage'' ''/home'' sample_world = (sample_world, Some ?te)"
    by (simp add: sample_platform_def sample_tar_def)
  have z1: "zip_extract sample_platform ''garbage'' ''/home'' sample_world = (sample_world, Some ?ze)"
    by (simp add: sample_platform_def sample_zip_def)
  have i: "is_tar_error ?te" by simp
  obtain w1 where t2: "tar_extract sample_platform ''tar of hello.txt'' ''/home'' sample_world = (w1, None)"
    by (simp add: sample_defs lookup_defs path_exists_def)
  from unarchive_order [of sample_platform "''garbage''" "''/home''" sample_world sample_world
      ?te sample_world ?ze] t1 z1 i
  have r1: "unarchive_traced sample_platform sample_world ''garbage'' ''/home'' =
      ([Tar, Zip], sample_world, Inl ?ze)"
    by blast
  from unarchive_order [of sample_platform "''tar of hello.txt''" "''/home''" sample_world w1
      ?te sample_world ?ze] t2
  have r2: "unarchive_traced sample_platform sample_world ''tar of hello.txt'' ''/home'' =
      ([Tar], w1, Inr ''/home'')"
    by blast
  from t1 z1 i r1 t2 r2 show ?thesis by simp
qed

section \<open>Directories\<close>

lemma split_on_not_Nil [simp]: "split_on sep s \<noteq> []"
  by (induction s) (auto split: list.splits)

lemma split_on_no_sep: "sep \<notin> set t \<Longrightarrow> split_on sep t = [t]"
  by (induction t) auto

lemma split_on_snoc_sep: "split_on sep (s @ [sep]) = split_on sep s @ [[]]"
  by (induction s) (auto split: list.splits)

lemma split_on_append_seps: "split_on sep (s @ replicate k sep) = split_on sep s @ replicate k []"
proof (induction k)
  case 0
  then show ?case by simp
next
  case (Suc k)
  have "s @ replicate (Suc k) sep = (s @ replicate k sep) @ [sep]"
    by (simp add: replicate_append_same)
  then show ?case
    using Suc by (simp only: split_on_snoc_sep) (simp add: replicate_append_same)
qed

lemma split_on_sep_tail: "sep \<notin> set t \<Longrightarrow> split_on sep (s @ sep # t) = split_on sep s @ [t]"
  by (induction s) (auto simp: split_on_no_sep split: list.splits)

lemma walk_append:
  "walk t loc (xs @ ys) = (case walk t loc xs of Inl e \<Rightarrow> Inl e | Inr l \<Rightarrow> walk t l ys)"
  by (induction xs arbitrary: loc) (auto split: option.splits inode.splits)

lemma walk_empties: "walk t loc (replicate k []) = Inr l \<Longrightarrow> l = loc"
  by (induction k arbitrary: loc) (auto simp: step_def split: option.splits inode.splits)

lemma walk_Cons_Dir: "walk t loc (x # xs) = Inr l \<Longrightarrow> t loc = Some Dir"
  by (auto split: option.splits inode.splits)

lemma walk_snoc:
  "walk t loc (xs @ [x]) = Inr l \<Longrightarrow>
   \<exists>par. walk t loc xs = Inr par \<and> t par = Some Dir \<and> l = step par x"
  by (auto simp: walk_append split: sum.splits option.splits inode.splits)

lemma rstrip_sep_decomp: "\<exists>k. p = rstrip_sep p @ replicate k CHR ''/''"
proof -
  have "\<exists>k. xs = replicate k CHR ''/'' @ dropWhile (\<lambda>c. c = CHR ''/'') xs" for xs :: string
  proof (induction xs)
    case Nil
    then show ?case by simp
  next
    case (Cons a xs)
    show ?case
    proof (cases "a = CHR ''/''")
      case True
      from Cons obtain k where "xs = replicate k CHR ''/'' @ dropWhile (\<lambda>c. c = CHR ''/'') xs" ..
      then have "a # xs = replicate (Suc k) CHR ''/'' @ dropWhile (\<lambda>c. c = CHR ''/'') (a # xs)"
        using True by simp
      then show ?thesis by blast
    next
      case False
      then have "a # xs = replicate 0 CHR ''/'' @ dropWhile (\<lambda>c. c = CHR ''/'') (a # xs)" by simp
      then show ?thesis by blast
    qed
  qed
  then obtain k where "rev p = replicate k CHR ''/'' @ dropWhile (\<lambda>c. c = CHR ''/'') (rev p)" by blast
  then have "rev (rev p) = rev (replicate k CHR ''/'' @ dropWhile (\<lambda>c. c = CHR ''/'') (rev p))"
    by simp
  then have "p = rstrip_sep p @ replicate k CHR ''/''"
    by (simp add: rstrip_sep_def)
  then show ?thesis ..
qed

lemma start_of_prefix: "r \<noteq> [] \<Longrightarrow> start_of w (r @ s) = start_of w r"
  by (cases r) (simp_all add: start_of_def isabs_def)

text \<open>A path that exists cannot be made: mkdir reports EEXIST.\<close>

lemma os_mkdir_existing:
  assumes "os_stat w name = Inr n"
  shows "os_mkdir w name = Inl EEXIST"
proof (cases "rstrip_sep name = []")
  case True
  moreover have "name \<noteq> []" using assms by (auto simp: os_stat_def)
  ultimately show ?thesis by (simp add: os_mkdir_def)
next
  case False
  let ?r = "rstrip_sep name"
  let ?cs = "split_on CHR ''/'' ?r"
  obtain k where k: "name = ?r @ replicate k CHR ''/''" using rstrip_sep_decomp by blast
  have ne: "name \<noteq> []" using False k by auto
  have st: "start_of w name = start_of w ?r"
    using start_of_prefix [OF False, of w "replicate k CHR ''/''"] k by simp
  have sp: "split_on CHR ''/'' name = ?cs @ replicate k []"
    using split_on_append_seps [of "CHR ''/''" ?r k] k by simp
  from assms ne obtain loc where
    w1: "walk (tree w) (start_of w name) (split_on CHR ''/'' name) = Inr loc"
    and t1: "tree w loc = Some n"
    by (auto simp: os_stat_def split: sum.splits option.splits)
  from w1 sp obtain l1 where
    w2: "walk (tree w) (start_of w name) ?cs = Inr l1"
    and w3: "walk (tree w) l1 (replicate k []) = Inr loc"
    by (auto simp: walk_append split: sum.splits)
  have ll: "loc = l1" using w3 by (rule walk_empties)
  have "walk (tree w) (start_of w name) (butlast ?cs @ [last ?cs]) = Inr l1"
    using w2 by simp
  then obtain par where
    w4: "walk (tree w) (start_of w name) (butlast ?cs) = Inr par"
    and pd: "tree w par = Some Dir" and sl: "l1 = step par (last ?cs)"
    using walk_snoc by blast
  show ?thesis
    using False ne w4 pd sl ll t1 by (simp add: os_mkdir_def Let_def)
qed

lemma walk_empties_Dir: "t loc = Some Dir \<Longrightarrow> walk t loc (replicate k []) = Inr loc"
  by (induction k) (auto simp: step_def)

lemma rstrip_sep_last: "rstrip_sep x \<noteq> [] \<Longrightarrow> last (rstrip_sep x) \<noteq> CHR ''/''"
proof -
  assume a: "rstrip_sep x \<noteq> []"
  let ?d = "dropWhile (\<lambda>c. c = CHR ''/'') (rev x)"
  from a have "?d \<noteq> []" by (simp add: rstrip_sep_def)
  then have "hd ?d \<noteq> CHR ''/''" using hd_dropWhile [of "\<lambda>c. c = CHR ''/''" "rev x"] by simp
  moreover have "last (rstrip_sep x) = hd ?d"
    using \<open>?d \<noteq> []\<close> by (simp add: rstrip_sep_def last_rev)
  ultimately show ?thesis by simp
qed

lemma posix_split_decomp:
  obtains pre t where "p = pre @ t" and "CHR ''/'' \<notin> set t"
    and "pre = [] \<or> last pre = CHR ''/''"
    and "posix_split p =
      (if pre \<noteq> [] \<and> pre \<noteq> replicate (length pre) CHR ''/'' then rstrip_sep pre else pre, t)"
proof -
  let ?d = "dropWhile (\<lambda>c. c \<noteq> CHR ''/'') (rev p)"
  let ?t = "takeWhile (\<lambda>c. c \<noteq> CHR ''/'') (rev p)"
  have "rev (?t @ ?d) = rev (rev p)" by (simp only: takeWhile_dropWhile_id)
  then have 1: "p = rev ?d @ rev ?t" by (simp only: rev_append rev_rev_ident)
  have 2: "CHR ''/'' \<notin> set (rev ?t)"
    using set_takeWhileD [of "CHR ''/''" "\<lambda>c. c \<noteq> CHR ''/''" "rev p"] by auto
  have 3: "rev ?d = [] \<or> last (rev ?d) = CHR ''/''"
  proof (cases "?d = []")
    case True
    then show ?thesis by simp
  next
    case False
    then have "hd ?d = CHR ''/''" using hd_dropWhile [of "\<lambda>c. c \<noteq> CHR ''/''" "rev p"] by simp
    then show ?thesis using False by (simp add: last_rev)
  qed
  have 4: "posix_split p =
      (if rev ?d \<noteq> [] \<and> rev ?d \<noteq> replicate (length (rev ?d)) CHR ''/'' then rstrip_sep (rev ?d)
       else rev ?d, rev ?t)"
    by (simp add: posix_split_def Let_def)
  from 1 2 3 4 show ?thesis by (rule that)
qed

text \<open>The head of a path that exists is an existing directory.\<close>

lemma os_stat_head:
  assumes "os_stat w p = Inr n" and "fst (posix_split p) \<noteq> []"
  shows "os_stat w (fst (posix_split p)) = Inr Dir"
proof -
  obtain pre t where p: "p = pre @ t" and t: "CHR ''/'' \<notin> set t"
    and l: "pre = [] \<or> last pre = CHR ''/''"
    and s: "posix_split p =
      (if pre \<noteq> [] \<and> pre \<noteq> replicate (length pre) CHR ''/'' then rstrip_sep pre else pre, t)"
    by (rule posix_split_decomp)
  have pre: "pre \<noteq> []" using assms(2) s by (auto split: if_splits)
  have ne: "p \<noteq> []" using p pre by simp
  from assms(1) ne obtain loc where
    w1: "walk (tree w) (start_of w p) (split_on CHR ''/'' p) = Inr loc"
    by (auto simp: os_stat_def split: sum.splits option.splits)
  have stp: "start_of w p = start_of w pre"
    using start_of_prefix [OF pre, of w t] p by simp
  show ?thesis
  proof (cases "pre = replicate (length pre) CHR ''/''")
    case True
    then have h: "fst (posix_split p) = pre" using s by simp
    have abs: "start_of w pre = []"
      using True pre by (cases pre) (auto simp: start_of_def isabs_def)
    have "split_on CHR ''/'' p \<noteq> []" by simp
    then obtain x xs where "split_on CHR ''/'' p = x # xs" by (cases "split_on CHR ''/'' p") auto
    then have root: "tree w [] = Some Dir"
      using w1 stp abs walk_Cons_Dir by metis
    have "split_on CHR ''/'' ([] @ replicate (length pre) CHR ''/'') =
        split_on CHR ''/'' [] @ replicate (length pre) []"
      by (rule split_on_append_seps)
    then have "split_on CHR ''/'' pre = replicate (Suc (length pre)) []"
      using True by simp
    then have "walk (tree w) [] (split_on CHR ''/'' pre) = Inr []"
      using walk_empties_Dir [of "tree w" "[]" "Suc (length pre)"] root by simp
    then show ?thesis
      using h pre abs root by (simp add: os_stat_def)
  next
    case False
    let ?r = "rstrip_sep pre"
    have h: "fst (posix_split p) = ?r" using s pre False by simp
    have r: "?r \<noteq> []" using assms(2) h by simp
    obtain k where k: "pre = ?r @ replicate k CHR ''/''" using rstrip_sep_decomp by blast
    have "k \<noteq> 0"
    proof
      assume "k = 0"
      then have "pre = ?r" using k by simp
      then show False using rstrip_sep_last [OF r] l pre by simp
    qed
    then obtain j where j: "k = Suc j" by (cases k) auto
    have "p = (?r @ replicate j CHR ''/'') @ CHR ''/'' # t"
      using p k j by (simp add: replicate_append_same)
    then have "split_on CHR ''/'' p = split_on CHR ''/'' (?r @ replicate j CHR ''/'') @ [t]"
      using split_on_sep_tail [OF t] by metis
    then have sp: "split_on CHR ''/'' p = split_on CHR ''/'' ?r @ (replicate j [] @ [t])"
      by (simp add: split_on_append_seps)
    have str: "start_of w p = start_of w ?r"
      using start_of_prefix [OF r, of w "replicate k CHR ''/'' @ t"] p k
      by (metis append.assoc)
    from w1 sp obtain l1 where
      w2: "walk (tree w) (start_of w p) (split_on CHR ''/'' ?r) = Inr l1"
      and w3: "walk (tree w) l1 (replicate j [] @ [t]) = Inr loc"
      by (auto simp: walk_append split: sum.splits)
    obtain x xs where "replicate j [] @ [t] = x # xs" by (cases "replicate j [] @ [t]") auto
    then have "tree w l1 = Some Dir" using w3 walk_Cons_Dir by metis
    then show ?thesis
      using h r w2 str by (simp add: os_stat_def)
  qed
qed

lemma path_exists_parts:
  assumes "os_stat w name = Inr n" and "fst (makedirs_parts name) \<noteq> []"
  shows "path_exists w (fst (makedirs_parts name))"
proof (cases "snd (posix_split name) = []")
  case False
  then show ?thesis
    using assms os_stat_head [of w name n] by (simp add: makedirs_parts_def path_exists_def)
next
  case True
  let ?h = "fst (posix_split name)"
  have p: "makedirs_parts name = posix_split ?h" using True by (simp add: makedirs_parts_def)
  have "?h \<noteq> []"
  proof
    assume "?h = []"
    then have "makedirs_parts name = ([], [])" using p by (simp add: posix_split_def)
    then show False using assms(2) by simp
  qed
  then have "os_stat w ?h = Inr Dir" using assms(1) by (rule os_stat_head [rotated])
  then have "os_stat w (fst (posix_split ?h)) = Inr Dir"
    using assms(2) p by (simp add: os_stat_head)
  then show ?thesis using p by (simp add: path_exists_def)
qed

lemma makedirs_existing:
  assumes "os_stat w name = Inr n"
  shows "makedirs w name = (w, Some (OSError EEXIST))"
proof -
  have "fst (makedirs_parts name) \<noteq> [] \<Longrightarrow> path_exists w (fst (makedirs_parts name))"
    using assms by (rule path_exists_parts)
  then show ?thesis
    by (subst makedirs.simps) (auto simp: mkdir_raise_def os_mkdir_existing [OF assms])
qed

text \<open>When the directory part of the file path is not empty and exists,
  \<^verbatim>\<open>create_directory_for_file\<close> returns silently and changes nothing.\<close>

lemma create_directory_for_file_existing:
  assumes "os_stat w (dirname file_path) = Inr n"
  shows "create_directory_for_file w file_path = (w, None)"
  using makedirs_existing [OF assms] by (simp add: create_directory_for_file_def)

lemma create_directory_for_file_no_directory_part:
  assumes "CHR ''/'' \<notin> set file_path"
  shows "create_directory_for_file w file_path = (w, Some (OSError ENOENT))"
proof -
  have "dropWhile (\<lambda>c. c \<noteq> CHR ''/'') (rev file_path) = []"
    using assms by auto
  then have d: "dirname file_path = []" by (simp add: dirname_def)
  have p: "makedirs_parts [] = ([], [])"
    by (simp add: makedirs_parts_def posix_split_def)
  have "makedirs w [] = (w, Some (OSError ENOENT))"
    by (subst makedirs.simps) (simp add: p mkdir_raise_def os_mkdir_def)
  then show ?thesis by (simp add: create_directory_for_file_def d)
qed

text \<open>
  Claim C8, at a failing input. For a file path without a directory part, such as
  \<^verbatim>\<open>model.yml\<close>, \<^verbatim>\<open>os.path.dirname\<close> is the empty string and \<^verbatim>\<open>os.makedirs\<close> raises
  \<^verbatim>\<open>FileNotFoundError\<close>, whose \<^verbatim>\<open>errno\<close> is not \<^verbatim>\<open>EEXIST\<close>: in every world
  \<^verbatim>\<open>create_directory_for_file\<close> raises it and changes nothing, although the parent
  directory of the file, the working directory, exists (here \<^verbatim>\<open>/home\<close> of the sample
  world).
\<close>

theorem create_directory_for_file_bare_name:
  "create_directory_for_file w ''model.yml'' = (w, Some (OSError ENOENT))
   \<and> abspath sample_world ''model.yml'' = ''/home/model.yml''
   \<and> os_stat sample_world (dirname (abspath sample_world ''model.yml'')) = Inr Dir"
proof -
  have p: "makedirs_parts [] = ([], [])"
    by (simp add: makedirs_parts_def posix_split_def)
  have "makedirs w [] = (w, Some (OSError ENOENT))"
    by (subst makedirs.simps) (simp add: p mkdir_raise_def os_mkdir_def)
  then have a: "create_directory_for_file w ''model.yml'' = (w, Some (OSError ENOENT))"
    by (simp add: create_directory_for_file_def dirname_def)
  have b: "abspath sample_world ''model.yml'' = ''/home/model.yml''"
    by (simp add: abspath_def isabs_def posix_join_def getcwd_def sample_world_def normpath_def)
  have c: "os_stat sample_world (dirname ''/home/model.yml'') = Inr Dir"
    by (simp add: dirname_def rstrip_sep_def lookup_defs sample_world_def)
  from a b c show ?thesis by simp
qed

lemma normpath_single:
  assumes "c \<noteq> []" and "CHR ''/'' \<notin> set c" and "c \<noteq> ''.''" and "c \<noteq> ''..''"
  shows "normpath (CHR ''/'' # c) = CHR ''/'' # c"
proof -
  obtain x xs where c: "c = x # xs" using assms(1) by (cases c) auto
  have x: "x \<noteq> CHR ''/''" using assms(2) c by auto
  have sp: "split_on CHR ''/'' (CHR ''/'' # c) = [[], c]"
    using assms(2) by (simp add: split_on_no_sep)
  have "norm_comps 1 [[], c] [] = [c]"
    using assms by simp
  then show ?thesis
    using x c sp assms(1) by (simp add: normpath_def isabs_def Let_def)
qed

text \<open>
  Claim C9. \<^verbatim>\<open>is_subdirectory\<close> is substring containment of the absolute candidate
  parent in the absolute path, not a comparison of path segments: it is true exactly when
  the absolute path is some text, the absolute candidate parent and some text, and false
  when an argument is \<^verbatim>\<open>None\<close>. So it holds for every path \<^verbatim>\<open>/ab\<close> and candidate
  parent \<^verbatim>\<open>/a\<close>, as for \<^verbatim>\<open>/foo/barbaz\<close> and \<^verbatim>\<open>/foo/bar\<close>, although the path is not
  inside that directory (as \<^verbatim>\<open>/foo/bar/baz\<close> is), and for a candidate parent that stands
  in the middle of the path. Both arguments are made absolute and normalised first: a
  relative path is taken from the working directory, and \<^verbatim>\<open>..\<close> is resolved.
\<close>

theorem is_subdirectory_substring:
  "is_subdirectory w (Some path) (Some parent) =
     (\<exists>xs ys. abspath w path = xs @ abspath w parent @ ys)
   \<and> \<not> is_subdirectory w None (Some parent)
   \<and> \<not> is_subdirectory w (Some path) None
   \<and> (a \<noteq> [] \<and> b \<noteq> [] \<and> CHR ''/'' \<notin> set a \<and> CHR ''/'' \<notin> set b
        \<and> a \<noteq> ''.'' \<and> a \<noteq> ''..'' \<longrightarrow>
        is_subdirectory w (Some (CHR ''/'' # a @ b)) (Some (CHR ''/'' # a))
        \<and> \<not> inside_by_segments w (CHR ''/'' # a @ b) (CHR ''/'' # a))
   \<and> is_subdirectory w (Some ''/foo/barbaz'') (Some ''/foo/bar'')
   \<and> \<not> inside_by_segments w ''/foo/barbaz'' ''/foo/bar''
   \<and> is_subdirectory w (Some ''/foo/bar/baz'') (Some ''/foo/bar'')
   \<and> inside_by_segments w ''/foo/bar/baz'' ''/foo/bar''
   \<and> \<not> is_subdirectory w (Some ''/foo/qux'') (Some ''/foo/bar'')
   \<and> \<not> is_subdirectory w (Some ''/foo/bar/../qux'') (Some ''/foo/bar'')
   \<and> is_subdirectory sample_world (Some ''models/nlu'') (Some ''/home/models'')
   \<and> is_subdirectory sample_world (Some ''models/nlu'') (Some ''/models'')
   \<and> \<not> inside_by_segments sample_world ''models/nlu'' ''/models''
   \<and> \<not> is_subdirectory sample_world (Some ''models'') (Some ''models/nlu'')
   \<and> is_subdirectory sample_world (Some ''/home/models'') (Some ''.'')
   \<and> \<not> is_subdirectory sample_world (Some ''/srv/models'') (Some ''.'')"
proof -
  have g: "is_subdirectory w (Some path) (Some parent) =
      (\<exists>xs ys. abspath w path = xs @ abspath w parent @ ys)"
    by (simp add: is_subdirectory_def contains_iff)
  have n: "\<not> is_subdirectory w None (Some parent)" "\<not> is_subdirectory w (Some path) None"
    by (simp_all add: is_subdirectory_def)
  have f: "a \<noteq> [] \<and> b \<noteq> [] \<and> CHR ''/'' \<notin> set a \<and> CHR ''/'' \<notin> set b
        \<and> a \<noteq> ''.'' \<and> a \<noteq> ''..'' \<longrightarrow>
        is_subdirectory w (Some (CHR ''/'' # a @ b)) (Some (CHR ''/'' # a))
        \<and> \<not> inside_by_segments w (CHR ''/'' # a @ b) (CHR ''/'' # a)"
  proof
    assume h: "a \<noteq> [] \<and> b \<noteq> [] \<and> CHR ''/'' \<notin> set a \<and> CHR ''/'' \<notin> set b
        \<and> a \<noteq> ''.'' \<and> a \<noteq> ''..''"
    have ab1: "a @ b \<noteq> ''.''"
      using h by (cases a; cases b) auto
    have ab2: "a @ b \<noteq> ''..''"
    proof
      assume e: "a @ b = ''..''"
      obtain x xs where a: "a = x # xs" using h by (cases a) auto
      obtain y ys where b: "b = y # ys" using h by (cases b) auto
      from e a b have "x = CHR ''.''" and "xs @ y # ys = ''.''" by simp_all
      then have "xs = []" by (cases xs) auto
      then show False using a \<open>x = CHR ''.''\<close> h by simp
    qed
    have pa: "abspath w (CHR ''/'' # a) = CHR ''/'' # a"
      using h by (simp add: abspath_def isabs_def normpath_single)
    have pab: "abspath w (CHR ''/'' # a @ b) = CHR ''/'' # a @ b"
      using h ab1 ab2 normpath_single [of "a @ b"] by (simp add: abspath_def isabs_def)
    have "contains ([] @ (CHR ''/'' # a) @ b) (CHR ''/'' # a)" by (rule contains_infix)
    then have s: "is_subdirectory w (Some (CHR ''/'' # a @ b)) (Some (CHR ''/'' # a))"
      by (simp add: is_subdirectory_def pa pab)
    have "path_components (CHR ''/'' # a) = [a]"
      using h by (simp add: path_components_def split_on_no_sep)
    moreover have "path_components (CHR ''/'' # a @ b) = [a @ b]"
      using h by (simp add: path_components_def split_on_no_sep)
    ultimately have "\<not> inside_by_segments w (CHR ''/'' # a @ b) (CHR ''/'' # a)"
      using h by (simp add: inside_by_segments_def pa pab)
    then show "is_subdirectory w (Some (CHR ''/'' # a @ b)) (Some (CHR ''/'' # a))
        \<and> \<not> inside_by_segments w (CHR ''/'' # a @ b) (CHR ''/'' # a)"
      using s by simp
  qed
  have p1: "abspath w ''/foo/barbaz'' = ''/foo/barbaz''"
    and p2: "abspath w ''/foo/bar'' = ''/foo/bar''"
    and p3: "abspath w ''/foo/bar/baz'' = ''/foo/bar/baz''"
    and p4: "abspath w ''/foo/qux'' = ''/foo/qux''"
    and p5: "abspath w ''/foo/bar/../qux'' = ''/foo/qux''"
    by (simp_all add: abspath_def isabs_def normpath_def)
  have q1: "abspath sample_world ''models/nlu'' = ''/home/models/nlu''"
    and q2: "abspath sample_world ''/home/models'' = ''/home/models''"
    and q3: "abspath sample_world ''/models'' = ''/models''"
    and q4: "abspath sample_world ''.'' = ''/home''"
    and q5: "abspath sample_world ''/srv/models'' = ''/srv/models''"
    and q6: "abspath sample_world ''models'' = ''/home/models''"
    by (simp_all add: abspath_def isabs_def normpath_def posix_join_def getcwd_def
        sample_world_def)
  have i: "is_subdirectory w (Some ''/foo/barbaz'') (Some ''/foo/bar'')"
    "\<not> inside_by_segments w ''/foo/barbaz'' ''/foo/bar''"
    "is_subdirectory w (Some ''/foo/bar/baz'') (Some ''/foo/bar'')"
    "inside_by_segments w ''/foo/bar/baz'' ''/foo/bar''"
    "\<not> is_subdirectory w (Some ''/foo/qux'') (Some ''/foo/bar'')"
    "\<not> is_subdirectory w (Some ''/foo/bar/../qux'') (Some ''/foo/bar'')"
    by (simp_all add: is_subdirectory_def inside_by_segments_def path_components_def
        p1 p2 p3 p4 p5)
  have j: "is_subdirectory sample_world (Some ''models/nlu'') (Some ''/home/models'')"
    "is_subdirectory sample_world (Some ''models/nlu'') (Some ''/models'')"
    "\<not> inside_by_segments sample_world ''models/nlu'' ''/models''"
    "\<not> is_subdirectory sample_world (Some ''models'') (Some ''models/nlu'')"
    "is_subdirectory sample_world (Some ''/home/models'') (Some ''.'')"
    "\<not> is_subdirectory sample_world (Some ''/srv/models'') (Some ''.'')"
    by (simp_all add: is_subdirectory_def inside_by_segments_def path_components_def
        q1 q2 q3 q4 q5 q6)
  from g n f i j show ?thesis by blast
qed
text \<open>The run of C9 on the path \<^verbatim>\<open>/barbaz\<close> and the candidate parent \<^verbatim>\<open>/bar\<close>.\<close>

theorem is_subdirectory_substring_witness:
  "''bar'' \<noteq> [] \<and> ''baz'' \<noteq> [] \<and> CHR ''/'' \<notin> set ''bar'' \<and> CHR ''/'' \<notin> set ''baz''
   \<and> ''bar'' \<noteq> ''.'' \<and> ''bar'' \<noteq> ''..''
   \<and> is_subdirectory sample_world (Some ''/barbaz'') (Some ''/bar'')
   \<and> \<not> inside_by_segments sample_world ''/barbaz'' ''/bar''"
proof -
  have h: "''bar'' \<noteq> [] \<and> ''baz'' \<noteq> [] \<and> CHR ''/'' \<notin> set ''bar'' \<and> CHR ''/'' \<notin> set ''baz''
      \<and> ''bar'' \<noteq> ''.'' \<and> ''bar'' \<noteq> ''..''"
    by simp
  have "is_subdirectory sample_world (Some (CHR ''/'' # ''bar'' @ ''baz'')) (Some (CHR ''/'' # ''bar''))
      \<and> \<not> inside_by_segments sample_world (CHR ''/'' # ''bar'' @ ''baz'') (CHR ''/'' # ''bar'')"
    using is_subdirectory_substring [of sample_world "[]" "[]" "''bar''" "''baz''"] h by blast
  then show ?thesis using h by simp
qed

end
